theory Spec2Isabelle
  imports Complex_Main
begin

section \<open>Query collections (frontend/lib/queries.ts)\<close>

text \<open>
  The times of an execution plan are modelled as exact reals: the rounding of their sum to a
  double is not part of the model. A \<open>QueryData\<close> object carries the fields the library
  reads; its other fields live in the record's extension slot.
\<close>

record ExplainJson =
  Execution_Time :: real
  Planning_Time :: real

record QueryData =
  label :: string
  db :: string
  sqlString :: string
  executionPlan :: "ExplainJson option"

text \<open>\<open>keyFromData\<close> and \<open>key\<close>: the template string \<open>label:${label} db:${db}\<close>.\<close>

definition keyFromData :: "string \<Rightarrow> string \<Rightarrow> string" where
  "keyFromData l d = ''label:'' @ l @ '' db:'' @ d"

definition key :: "QueryData \<Rightarrow> string" where
  "key query = ''label:'' @ label query @ '' db:'' @ db query"

subsection \<open>Collections as heap objects\<close>

text \<open>
  A collection (\<open>AppState['queries']\<close>, \<open>AppState['comparedQueries']\<close>) is a JavaScript
  object used as a dictionary from keys to queries. Objects are passed by reference, so the
  store is explicit: a heap is the list of the objects allocated so far and a reference is an
  index into it. An object literal allocates a new object at the end of the heap.
\<close>

type_synonym collection = "string \<rightharpoonup> QueryData"
type_synonym ref = nat
type_synonym heap = "collection list"

definition alloc :: "heap \<Rightarrow> collection \<Rightarrow> ref \<times> heap" where
  "alloc h obj = (length h, h @ [obj])"

text \<open>Spreading \<open>{ ...obj }\<close> reads the own properties; spreading nothing gives none.\<close>

definition props :: "heap \<Rightarrow> ref \<Rightarrow> collection" where
  "props h r = (if r < length h then h ! r else Map.empty)"

text \<open>\<open>obj[k] = v\<close> and \<open>delete obj[k]\<close> mutate the object a reference points to.\<close>

definition assign :: "heap \<Rightarrow> ref \<Rightarrow> string \<Rightarrow> QueryData \<Rightarrow> heap" where
  "assign h r k v = (if r < length h then h[r := (h ! r)(k \<mapsto> v)] else h)"

definition delete_prop :: "heap \<Rightarrow> ref \<Rightarrow> string \<Rightarrow> heap" where
  "delete_prop h r k = (if r < length h then h[r := (h ! r)(k := None)] else h)"

definition createQuery :: "heap \<Rightarrow> ref \<Rightarrow> QueryData \<Rightarrow> ref \<times> heap" where
  "createQuery h queries newQuery = alloc h ((props h queries)(key newQuery \<mapsto> newQuery))"

definition deleteQuery :: "heap \<Rightarrow> ref \<Rightarrow> QueryData \<Rightarrow> ref \<times> heap" where
  "deleteQuery h queries queryToDelete =
     (let (tempQueries, h1) = alloc h (props h queries);
          h2 = delete_prop h1 tempQueries (key queryToDelete)
      in (tempQueries, h2))"

definition setCompare :: "heap \<Rightarrow> ref \<Rightarrow> QueryData \<Rightarrow> bool \<Rightarrow> ref \<times> heap" where
  "setCompare h comparedQueries query isCompared =
     (let (tempQueries, h1) = alloc h (props h comparedQueries)
      in if \<not> isCompared
         then (tempQueries, delete_prop h1 tempQueries (key query))
         else (tempQueries, assign h1 tempQueries (key query) query))"

subsection \<open>Timing\<close>


section \<open>IPC handlers of the main process\<close>

text \<open>
  The handlers drive a database server and external dump and restore tools. The command
  builders of \<open>helperFunctions\<close> (\<open>createDBFunc\<close>, \<open>dropDBFunc\<close>, \<open>runSQLFunc\<close>,
  \<open>runTARFunc\<close>, \<open>runFullCopyFunc\<close>, \<open>runHollowCopyFunc\<close>) are kept symbolic: each is a
  constructor applied to its arguments.
\<close>

datatype shell_cmd =
    runFullCopyFunc string string
  | runHollowCopyFunc string string
  | runSQLFunc string string
  | runTARFunc string string

datatype sql =
    createDBFunc string
  | dropDBFunc string

text \<open>
  Everything a handler does to the outside is an effect, recorded in order: events sent to
  the renderer, external processes started with \<open>promExecute\<close>, queries given to
  \<open>db.query\<close> (a script of \<open>helperFunctions\<close>, or SQL text), \<open>db.getLists\<close>,
  \<open>db.connectToDB\<close> and \<open>fs.unlinkSync\<close>.
\<close>

datatype effect =
    Send string
  | Feedback string
  | PromExecute shell_cmd
  | DbQuery sql
  | DbQueryText string
  | GetLists
  | ConnectToDB string
  | Unlink string

text \<open>
  A handler throws either an \<open>Error\<close> it builds itself, with its message, or lets the
  rejection of an external call through unchanged.
\<close>

datatype exn = Error string | Rejected effect

record world =
  databases :: "string set"
  trace :: "effect list"

definition emit :: "effect \<Rightarrow> world \<Rightarrow> world" where
  "emit e w = w\<lparr>trace := trace w @ [e]\<rparr>"

text \<open>
  \<open>db.query\<close> of a lifecycle statement: the statement is issued; when the server accepts it,
  \<open>CREATE DATABASE\<close> adds the name and \<open>DROP DATABASE\<close> removes it; when it rejects it,
  the set of databases stays as it was.
\<close>

fun apply_sql :: "sql \<Rightarrow> string set \<Rightarrow> string set" where
  "apply_sql (createDBFunc n) dbs = insert n dbs"
| "apply_sql (dropDBFunc n) dbs = dbs - {n}"

definition db_query :: "sql \<Rightarrow> bool \<Rightarrow> world \<Rightarrow> world" where
  "db_query q ok w =
     (let w1 = emit (DbQuery q) w
      in if ok then w1\<lparr>databases := apply_sql q (databases w1)\<rparr> else w1)"

subsection \<open>duplicate-db\<close>

text \<open>
  The outcome of each fallible external call of one invocation, one field per call site.
  A dump or restore process does not create or drop databases itself.
\<close>

record dup_outcomes =
  dump_ok :: bool
  create_ok :: bool
  restore_ok :: bool
  drop_ok :: bool
  lists_ok :: bool
  unlink_ok :: bool

record DuplicatePayload =
  newName :: string
  sourceDb :: string
  withData :: bool

text \<open>
  \<open>path.resolve\<close> (POSIX flavour): the paths are joined from the right until one of them is
  absolute, the working directory standing in when none is; the result is normalised: empty
  segments and \<open>.\<close> are dropped, \<open>..\<close> removes the segment before it (none at the root), and
  there is no trailing slash.
\<close>

fun split_path :: "string \<Rightarrow> string \<Rightarrow> string list" where
  "split_path cur [] = [cur]"
| "split_path cur (c # cs) =
     (if c = CHR ''/'' then cur # split_path [] cs else split_path (cur @ [c]) cs)"

definition normalize_segments :: "string list \<Rightarrow> string list" where
  "normalize_segments segs =
     foldl (\<lambda>stack seg. if seg = [] then stack
                         else if seg = ''.'' then stack
                         else if seg = ''..'' then butlast stack
                         else stack @ [seg]) [] segs"

fun join_until_absolute :: "string \<Rightarrow> string list \<Rightarrow> string \<Rightarrow> string" where
  "join_until_absolute cwd [] acc = cwd @ ''/'' @ acc"
| "join_until_absolute cwd (p # ps) acc =
     (if p = [] then join_until_absolute cwd ps acc
      else if hd p = CHR ''/'' then p @ ''/'' @ acc
      else join_until_absolute cwd ps (p @ ''/'' @ acc))"

definition path_resolve :: "string \<Rightarrow> string list \<Rightarrow> string" where
  "path_resolve cwd paths =
     (let segs = normalize_segments (split_path [] (join_until_absolute cwd (rev paths) []))
      in if segs = [] then ''/'' else concat (map (\<lambda>s. CHR ''/'' # s) segs))"

text \<open>\<open>path.resolve(os.homedir(), 'desktop', `temp_${newName}.sql`)\<close>, for the home directory
  and the working directory of the process.\<close>

definition tempFilePath :: "string \<Rightarrow> string \<Rightarrow> string \<Rightarrow> string" where
  "tempFilePath homedir cwd n = path_resolve cwd [homedir, ''desktop'', ''temp_'' @ n @ ''.sql'']"

text \<open>The \<open>try\<close> block of the handler.\<close>

definition duplicate_try ::
  "dup_outcomes \<Rightarrow> DuplicatePayload \<Rightarrow> string \<Rightarrow> world \<Rightarrow> (exn + unit) \<times> world" where
  "duplicate_try oc p tmp w0 =
     (let dumpCmd = (if withData p then runFullCopyFunc (sourceDb p) tmp
                     else runHollowCopyFunc (sourceDb p) tmp);
          w1 = emit (PromExecute dumpCmd) w0
      in if \<not> dump_ok oc
         then (Inl (Error (''Failed to dump '' @ sourceDb p @ '' to temp file at '' @ tmp)), w1)
         else
           let w2 = db_query (createDBFunc (newName p)) (create_ok oc) w1
           in if \<not> create_ok oc
              then (Inl (Error ''Failed to create Database''), w2)
              else
                let w3 = emit (PromExecute (runSQLFunc (newName p) tmp)) w2
                in if \<not> restore_ok oc
                   then
                     (let dropDBScript = dropDBFunc (newName p);
                          w4 = db_query dropDBScript (drop_ok oc) w3
                      in if \<not> drop_ok oc
                         then (Inl (Rejected (DbQuery dropDBScript)), w4)
                         else (Inl (Error ''Failed to populate newly created database''), w4))
                   else
                     let w5 = emit GetLists w3
                     in if \<not> lists_ok oc
                        then (Inl (Rejected GetLists), w5)
                        else (Inr (), emit (Send ''db-lists'') w5))"

text \<open>The \<open>finally\<close> block: remove the temporary file, report when that fails, signal completion.\<close>

definition duplicate_finally :: "dup_outcomes \<Rightarrow> string \<Rightarrow> world \<Rightarrow> world" where
  "duplicate_finally oc tmp w =
     (let w1 = emit (Unlink tmp) w;
          w2 = (if unlink_ok oc then w1
                else emit (Feedback (''Failed to cleanup temp files. '' @ tmp
                                      @ '' could not be removed.'')) w1)
      in emit (Send ''async-complete'') w2)"

definition duplicate_db ::
  "string \<Rightarrow> string \<Rightarrow> dup_outcomes \<Rightarrow> DuplicatePayload \<Rightarrow> world
    \<Rightarrow> (exn + unit) \<times> world" where
  "duplicate_db homedir cwd oc p w =
     (let w1 = emit (Send ''async-started'') w;
          tmp = tempFilePath homedir cwd (newName p);
          (r, w2) = duplicate_try oc p tmp w1
      in (r, duplicate_finally oc tmp w2))"

subsection \<open>import-db\<close>

text \<open>
  \<open>path.extname\<close> (POSIX flavour): the extension of the last path segment, from its last
  dot; empty when the segment has no dot, starts with its only dot, or is \<open>..\<close>.
  \<open>toLowerCase\<close> is modelled on ASCII letters.
\<close>

definition basename :: "string \<Rightarrow> string" where
  "basename path =
     rev (takeWhile (\<lambda>c. c \<noteq> CHR ''/'') (dropWhile (\<lambda>c. c = CHR ''/'') (rev path)))"

definition extname :: "string \<Rightarrow> string" where
  "extname path =
     (let b = basename path;
          suffix = rev (takeWhile (\<lambda>c. c \<noteq> CHR ''.'') (rev b));
          stem = take (length b - length suffix - 1) b
      in if CHR ''.'' \<notin> set b \<or> stem = [] \<or> b = ''..'' then []
         else CHR ''.'' # suffix)"

definition lower_char :: "char \<Rightarrow> char" where
  "lower_char c =
     (let n = (of_char c :: nat)
      in if 65 \<le> n \<and> n \<le> 90 then char_of (n + 32) else c)"

definition toLowerCase :: "string \<Rightarrow> string" where
  "toLowerCase s = map lower_char s"

record import_outcomes =
  icreate_ok :: bool
  irestore_ok :: bool
  idrop_ok :: bool
  ilists_ok :: bool

record ImportPayload =
  newDbName :: string
  filePath :: string

definition import_try :: "import_outcomes \<Rightarrow> ImportPayload \<Rightarrow> world \<Rightarrow> (exn + unit) \<times> world" where
  "import_try oc p w0 =
     (let w1 = db_query (createDBFunc (newDbName p)) (icreate_ok oc) w0
      in if \<not> icreate_ok oc
         then (Inl (Rejected (DbQuery (createDBFunc (newDbName p)))), w1)
         else
           let ext = toLowerCase (extname (filePath p))
           in if ext \<noteq> ''.sql'' \<and> ext \<noteq> ''.tar''
              then (Inl (Error ''Invalid file extension''), w1)
              else
                let restoreCmd = (if ext = ''.sql'' then runSQLFunc (newDbName p) (filePath p)
                                  else runTARFunc (newDbName p) (filePath p));
                    w2 = emit (PromExecute restoreCmd) w1
                in if \<not> irestore_ok oc
                   then
                     (let dropDBScript = dropDBFunc (newDbName p);
                          w3 = db_query dropDBScript (idrop_ok oc) w2
                      in if \<not> idrop_ok oc
                         then (Inl (Rejected (DbQuery dropDBScript)), w3)
                         else (Inl (Error ''Failed to populate database''), w3))
                   else
                     let w4 = emit GetLists w2
                     in if \<not> ilists_ok oc
                        then (Inl (Rejected GetLists), w4)
                        else (Inr (), emit (Send ''db-lists'') w4))"

definition import_db :: "import_outcomes \<Rightarrow> ImportPayload \<Rightarrow> world \<Rightarrow> (exn + unit) \<times> world" where
  "import_db oc p w =
     (let w1 = emit (Send ''async-started'') w;
          (r, w2) = import_try oc p w1
      in (r, emit (Send ''async-complete'') w2))"

subsection \<open>run-query\<close>

text \<open>
  Values that reach the handlers from the database or from the generators: numbers (whole
  ones: the generators make no others), strings and \<open>undefined\<close>. A result row is an object
  from column names to values.
\<close>

datatype js_value = JsNumber int | JsString string | JsUndefined

type_synonym row = "(string \<times> js_value) list"

text \<open>
  What the database answers in one invocation. A rejection carries the text that
  \<open>e.toString()\<close> gives. The wrapped \<open>EXPLAIN\<close> is a multi-statement query and resolves
  to an array of results, of which the handler reads \<open>results[1].rows\<close>.
\<close>

record query_outcomes =
  connect_target_ok :: bool
  explain_response :: "string + row list list"
  query_response :: "string + row list"
  connect_back_ok :: bool
  qlists_ok :: bool

text \<open>The object the handler returns; \<open>result_db\<close> and \<open>result_sqlString\<close> are its \<open>db\<close> and
  \<open>sqlString\<close> properties.\<close>

record QueryResult =
  result_db :: string
  result_sqlString :: string
  returnedRows :: "row list option"
  explainResults :: "row list option"
  error :: "string option"

definition explain_sql :: "string \<Rightarrow> string" where
  "explain_sql s = ''BEGIN; EXPLAIN (FORMAT JSON, ANALYZE, VERBOSE, BUFFERS) '' @ s @ ''; ROLLBACK;''"

definition explain_failure :: string where
  "explain_failure = ''Failed to get Execution Plan. EXPLAIN might not support this query.''"

text \<open>The first inner \<open>try\<close>: the plan, and the value of \<open>error\<close> after it.\<close>

definition run_explain :: "query_outcomes \<Rightarrow> row list option \<times> string option" where
  "run_explain oc =
     (case explain_response oc of
        Inr results \<Rightarrow>
          if 1 < length results then (Some (results ! 1), None)
          else (None, Some explain_failure)
      | Inl e \<Rightarrow> (None, Some explain_failure))"

text \<open>The second inner \<open>try\<close>: the rows, and the value of \<open>error\<close> after it.\<close>

definition run_statement :: "query_outcomes \<Rightarrow> string option \<Rightarrow> row list option \<times> string option" where
  "run_statement oc err =
     (case query_response oc of
        Inr rows \<Rightarrow> (Some rows, err)
      | Inl e \<Rightarrow> (None, Some e))"

definition run_query_try ::
  "query_outcomes \<Rightarrow> string \<Rightarrow> string \<Rightarrow> string \<Rightarrow> effect list
    \<Rightarrow> (exn + QueryResult) \<times> effect list" where
  "run_query_try oc targetDb sqlStr selectedDb tr0 =
     (let tr1 = (if selectedDb \<noteq> targetDb then tr0 @ [ConnectToDB targetDb] else tr0)
      in if selectedDb \<noteq> targetDb \<and> \<not> connect_target_ok oc
         then (Inl (Rejected (ConnectToDB targetDb)), tr1)
         else
           let tr2 = tr1 @ [DbQueryText (explain_sql sqlStr)];
               (explainRes, err1) = run_explain oc;
               tr3 = tr2 @ [DbQueryText sqlStr];
               (rows, err2) = run_statement oc err1
           in (Inr \<lparr>result_db = targetDb, result_sqlString = sqlStr, returnedRows = rows,
                     explainResults = explainRes, error = err2\<rparr>, tr3))"

text \<open>The \<open>finally\<close> block; what it throws, if anything, replaces the result of the \<open>try\<close>.\<close>

definition run_query_finally ::
  "query_outcomes \<Rightarrow> string \<Rightarrow> string \<Rightarrow> effect list \<Rightarrow> exn option \<times> effect list" where
  "run_query_finally oc targetDb selectedDb tr0 =
     (let tr1 = (if selectedDb \<noteq> targetDb then tr0 @ [ConnectToDB selectedDb] else tr0)
      in if selectedDb \<noteq> targetDb \<and> \<not> connect_back_ok oc
         then (Some (Rejected (ConnectToDB selectedDb)), tr1)
         else
           let tr2 = tr1 @ [GetLists]
           in if \<not> qlists_ok oc then (Some (Rejected GetLists), tr2)
              else (None, tr2 @ [Send ''db-lists'', Send ''async-complete'']))"

definition run_query ::
  "query_outcomes \<Rightarrow> string \<Rightarrow> string \<Rightarrow> string \<Rightarrow> effect list
    \<Rightarrow> (exn + QueryResult) \<times> effect list" where
  "run_query oc targetDb sqlStr selectedDb tr =
     (let (r, tr1) = run_query_try oc targetDb sqlStr selectedDb (tr @ [Send ''async-started'']);
          (thrown, tr2) = run_query_finally oc targetDb selectedDb tr1
      in (case thrown of Some e \<Rightarrow> Inl e | None \<Rightarrow> r, tr2))"

section \<open>Dummy data generation\<close>

text \<open>
  The generator draws from \<open>Math.random\<close>, from the faker library and from the database.
  These are outside the repository; they are parameters of the model. Every draw is
  numbered: the generator threads the number of draws made so far, and the environment
  says what the draw with a given number returns.
\<close>

record gen_env =
  Math_random :: "nat \<Rightarrow> real"
  faker_random_number :: "int \<Rightarrow> int \<Rightarrow> nat \<Rightarrow> int"
  faker_random_alphaNumeric :: "int \<Rightarrow> nat \<Rightarrow> string"
  faker_random_boolean :: "nat \<Rightarrow> bool"
  query_rows :: "string \<Rightarrow> nat \<Rightarrow> string + row list"

record ColumnObj =
  column_name :: string
  data_type :: string
  character_maximum_length :: "int option"
  is_nullable :: string
  constraint_type :: string
  foreign_table :: string
  foreign_column :: string

subsection \<open>Arithmetic on doubles\<close>

text \<open>
  The generator multiplies and adds numbers that are not whole. A JavaScript number is an
  IEEE 754 binary64: the result of an operation is the exact result rounded to the nearest
  number with a significand of 53 bits (and an exponent of at least \<open>-1074\<close>), a tie going to
  the even significand. Overflow to infinity is left out: nothing here comes near it.
\<close>

definition pow2 :: "int \<Rightarrow> real" where
  "pow2 k = 2 powi k"

fun bit_length :: "nat \<Rightarrow> nat" where
  "bit_length n = (if n < 2 then 1 else Suc (bit_length (n div 2)))"

declare bit_length.simps [simp del]

text \<open>The binary exponent of a positive number: \<open>e\<close> with \<open>2^e \<le> x < 2^(e+1)\<close>.\<close>

definition exponent2 :: "real \<Rightarrow> int" where
  "exponent2 x =
     (if 1 \<le> x then int (bit_length (nat \<lfloor>x\<rfloor>)) - 1
      else - int (bit_length (nat (\<lceil>1 / x\<rceil> - 1))))"

definition round_half_even :: "real \<Rightarrow> int" where
  "round_half_even z =
     (let f = \<lfloor>z\<rfloor>; d = z - of_int f
      in if d < 1 / 2 then f else if 1 / 2 < d then f + 1 else if even f then f else f + 1)"

definition round_double :: "real \<Rightarrow> real" where
  "round_double x =
     (if x = 0 then 0
      else
        let q = max (exponent2 \<bar>x\<bar> - 52) (- 1074)
        in of_int (round_half_even (x / pow2 q)) * pow2 q)"

definition double_mul :: "real \<Rightarrow> real \<Rightarrow> real" where
  "double_mul a b = round_double (a * b)"

definition double_add :: "real \<Rightarrow> real \<Rightarrow> real" where
  "double_add a b = round_double (a + b)"

text \<open>
  \<open>getRandomInt\<close>: \<open>Math.floor(Math.random() * (maxInt - minInt) + minInt)\<close>. The difference
  of the two whole numbers is exact.
\<close>

definition getRandomInt :: "gen_env \<Rightarrow> real \<Rightarrow> real \<Rightarrow> nat \<Rightarrow> int \<times> nat" where
  "getRandomInt env min_v max_v t =
     (let minInt = \<lceil>min_v\<rceil>;
          maxInt = \<lfloor>max_v\<rfloor>
      in (\<lfloor>double_add (double_mul (Math_random env t) (of_int (maxInt - minInt)))
                      (of_int minInt)\<rfloor>, t + 1))"

text \<open>\<open>toString\<close> of an integer-valued number: its decimal digits, with a sign when negative.\<close>

definition digit_char :: "nat \<Rightarrow> char" where
  "digit_char d = char_of (48 + d)"

fun nat_toString :: "nat \<Rightarrow> string" where
  "nat_toString n =
     (if n < 10 then [digit_char n] else nat_toString (n div 10) @ [digit_char (n mod 10)])"

definition toString :: "int \<Rightarrow> string" where
  "toString i = (if i < 0 then CHR ''-'' # nat_toString (nat (- i)) else nat_toString (nat i))"

text \<open>\<open>'\''.concat(s).concat('\'')\<close>\<close>

definition quoted :: "string \<Rightarrow> string" where
  "quoted s = CHR 0x27 # s @ [CHR 0x27]"

text \<open>\<open>if (s.length === 1) s = `0${s}`\<close>\<close>

definition pad2 :: "string \<Rightarrow> string" where
  "pad2 s = (if length s = 1 then CHR ''0'' # s else s)"

text \<open>
  \<open>generateDataByType\<close>: the value for a column, or the error thrown for a type that is not
  handled, and the number of draws afterwards. The test
  \<open>character_maximum_length && character_maximum_length < 3\<close> fails for \<open>null\<close> and for 0.
  The line the default case logs before it throws is left out.
\<close>

definition generateDataByType :: "gen_env \<Rightarrow> ColumnObj \<Rightarrow> nat \<Rightarrow> (exn + js_value) \<times> nat" where
  "generateDataByType env columnObj t =
     (if data_type columnObj = ''smallint''
      then (Inr (JsNumber (faker_random_number env (- 32768) 32767 t)), t + 1)
      else if data_type columnObj = ''integer''
      then (Inr (JsNumber (faker_random_number env (- 2147483648) 2147483647 t)), t + 1)
      else if data_type columnObj = ''bigint''
      then (Inr (JsNumber (faker_random_number env (- 9223372036854775808)
                             9223372036854775807 t)), t + 1)
      else if data_type columnObj = ''character varying''
      then
        (case character_maximum_length columnObj of
           None \<Rightarrow> (Inr (JsString (quoted (faker_random_alphaNumeric env 3 t))), t + 1)
         | Some n \<Rightarrow>
             if n \<noteq> 0 \<and> n < 3
             then
               (let len = \<lfloor>double_mul (Math_random env t) (of_int n)\<rfloor>
                in (Inr (JsString (quoted (faker_random_alphaNumeric env len (t + 1)))), t + 2))
             else (Inr (JsString (quoted (faker_random_alphaNumeric env 3 t))), t + 1))
      else if data_type columnObj = ''date''
      then
        (let (y, t1) = getRandomInt env 1500 2020 t;
             year = toString y;
             (m, t2) = getRandomInt env 1 13 t1;
             month = pad2 (toString m);
             (d, t3) = getRandomInt env 1 29 t2;
             day = pad2 (toString d);
             result = year @ ''/'' @ month @ ''/'' @ day
         in (Inr (JsString (quoted result)), t3))
      else if data_type columnObj = ''boolean''
      then (Inr (JsString (quoted (if faker_random_boolean env t then ''true'' else ''false''))),
            t + 1)
      else (Inl (Error ''unhandled data type''), t))"

text \<open>
  What the promise of \<open>generateDummyData\<close> settles with: the records (the column names and
  the rows), an \<open>Error\<close> object it resolves with (\<open>return new Error(...)\<close>,
  \<open>return err\<close>), or a rejection (an error thrown by \<open>generateDataByType\<close>).
\<close>

datatype gen_result =
    Records "string list \<times> js_value list list"
  | ReturnedError exn
  | Thrown exn

definition columnNames :: "ColumnObj list \<Rightarrow> string list" where
  "columnNames tableInfo =
     foldl (\<lambda>acc curr. if constraint_type curr \<noteq> ''PRIMARY KEY''
                        then acc @ [column_name curr] else acc) [] tableInfo"

text \<open>The text of the sampling query, without its line breaks and indentation.\<close>

definition getForeignKeyQuery :: "string \<Rightarrow> string \<Rightarrow> string" where
  "getForeignKeyQuery foreignColumn foreignTable =
     ''SELECT '' @ foreignColumn @ '' FROM '' @ foreignTable
       @ '' TABLESAMPLE BERNOULLI(50) LIMIT 1''"

text \<open>Reading a property of a row object: \<open>undefined\<close> when the row has no such property.\<close>

definition get_prop :: "row \<Rightarrow> string \<Rightarrow> js_value" where
  "get_prop r k = (case map_of r k of None \<Rightarrow> JsUndefined | Some v \<Rightarrow> v)"

text \<open>
  The inner loop over the columns: the row built so far and the draws made, or the result the
  function leaves with.
\<close>

fun columnsLoop ::
  "gen_env \<Rightarrow> ColumnObj list \<Rightarrow> js_value list \<Rightarrow> nat \<Rightarrow> gen_result + (js_value list \<times> nat)" where
  "columnsLoop env [] row t = Inr (row, t)"
| "columnsLoop env (c # cs) row t =
     (if constraint_type c \<noteq> ''FOREIGN KEY'' \<and> constraint_type c \<noteq> ''PRIMARY KEY''
      then
        (case generateDataByType env c t of
           (Inl e, t') \<Rightarrow> Inl (Thrown e)
         | (Inr v, t') \<Rightarrow> columnsLoop env cs (row @ [v]) t')
      else if constraint_type c = ''FOREIGN KEY''
      then
        (let foreignKeyQuery = getForeignKeyQuery (foreign_column c) (foreign_table c)
         in case query_rows env foreignKeyQuery t of
              Inl e \<Rightarrow> Inl (ReturnedError (Rejected (DbQueryText foreignKeyQuery)))
            | Inr rows \<Rightarrow>
                if rows \<noteq> []
                then columnsLoop env cs (row @ [get_prop (hd rows) ''_id'']) (t + 1)
                else Inl (ReturnedError
                       (Error ''There was an error while retrieving a valid foreign key.'')))
      else columnsLoop env cs row t)"

text \<open>The outer loop \<open>for (let i = 0; i < numRows; i += 1)\<close>, for a whole \<open>numRows\<close>; the
  records are the pair of \<open>dummyRecords[0]\<close>, the column names, and the rows pushed after it.\<close>

function rowsLoop ::
  "gen_env \<Rightarrow> ColumnObj list \<Rightarrow> int \<Rightarrow> int \<Rightarrow> string list \<times> js_value list list \<Rightarrow> nat
    \<Rightarrow> gen_result" where
  "rowsLoop env tableInfo numRows i dummyRecords t =
     (if i < numRows
      then
        (case columnsLoop env tableInfo [] t of
           Inl r \<Rightarrow> r
         | Inr (row, t') \<Rightarrow>
             rowsLoop env tableInfo numRows (i + 1)
               (fst dummyRecords, snd dummyRecords @ [row]) t')
      else Records dummyRecords)"
  by pat_completeness auto
termination
  by (relation "measure (\<lambda>(env, tableInfo, numRows, i, dummyRecords, t). nat (numRows - i))")
    auto

declare rowsLoop.simps [simp del]
declare nat_toString.simps [simp del]

definition generateDummyData :: "gen_env \<Rightarrow> ColumnObj list \<Rightarrow> int \<Rightarrow> nat \<Rightarrow> gen_result" where
  "generateDummyData env tableInfo numRows t =
     rowsLoop env tableInfo numRows 0 (columnNames tableInfo, []) t"

section \<open>Pretty time (frontend/lib/queries.ts)\<close>

text \<open>
  Modelled from the spec: \<open>Number.prototype.toPrecision\<close> and the \<open>ms\<close> package, which
  \<open>getPrettyTime\<close> calls, are not among the repository's sources. The spec says that the
  total is rounded to three significant figures and then formatted as a human-readable
  duration, \<open>1.08 ms\<close> or \<open>2 seconds\<close>. The model follows that: \<open>toPrecision p\<close> rounds to
  \<open>p\<close> significant decimal digits (a tie goes up in magnitude) and gives the number its
  result denotes, kept as a decimal so that it can be printed; \<open>fmtLong\<close> is the long
  format: a whole number of days, hours, minutes or seconds, whichever is the largest unit
  the duration reaches, in the plural from one and a half units on, and below one second the
  number itself followed by \<open>ms\<close>. Numbers are printed the way JavaScript prints them.
\<close>

record decimal =
  mantissa :: int
  exponent :: int

definition pow10 :: "int \<Rightarrow> real" where
  "pow10 k = (if 0 \<le> k then 10 ^ nat k else 1 / 10 ^ nat (- k))"

definition decimal_value :: "decimal \<Rightarrow> real" where
  "decimal_value d = of_int (mantissa d) * pow10 (exponent d)"

text \<open>The decimal exponent of a positive number: \<open>e\<close> with \<open>10^e \<le> x < 10^(e+1)\<close>.\<close>

definition exponent10 :: "real \<Rightarrow> int" where
  "exponent10 x =
     (if 1 \<le> x then int (length (nat_toString (nat \<lfloor>x\<rfloor>))) - 1
      else - int (length (nat_toString (nat (\<lceil>1 / x\<rceil> - 1)))))"

definition toPrecision :: "nat \<Rightarrow> real \<Rightarrow> decimal" where
  "toPrecision p x =
     (if x = 0 then \<lparr>mantissa = 0, exponent = 0\<rparr>
      else
        let e = exponent10 \<bar>x\<bar>;
            n = \<lfloor>\<bar>x\<bar> / pow10 (e - int p + 1) + 1 / 2\<rfloor>
        in \<lparr>mantissa = (if x < 0 then - n else n), exponent = e - int p + 1\<rparr>)"








section \<open>Specification vocabulary\<close>

text \<open>When each of the two steps of \<open>run-query\<close> counts as failed: the query was rejected, or
  (for the plan) the answer has no second result to read the rows of.\<close>

definition explain_failed :: "query_outcomes \<Rightarrow> bool" where
  "explain_failed oc =
     (case explain_response oc of Inl e \<Rightarrow> True | Inr results \<Rightarrow> length results < 2)"

definition statement_failed :: "query_outcomes \<Rightarrow> bool" where
  "statement_failed oc = isl (query_response oc)"

text \<open>What the generator may assume of its sources: \<open>Math.random\<close> returns a double in
  \<open>[0, 1)\<close>, so a number from 0 to \<open>1 - 2^-53\<close>, the largest double below 1; and
  \<open>faker.random.alphaNumeric(n)\<close> returns a string of \<open>n\<close> characters (none for a negative
  \<open>n\<close>) among the digits and the lower-case letters.\<close>

definition random_in_unit :: "gen_env \<Rightarrow> bool" where
  "random_in_unit env = (\<forall>t. 0 \<le> Math_random env t \<and> Math_random env t \<le> 1 - 1 / 2 ^ 53)"

definition alphaNumeric_chars :: "char set" where
  "alphaNumeric_chars = set ''0123456789abcdefghijklmnopqrstuvwxyz''"

definition alphaNumeric_ok :: "gen_env \<Rightarrow> bool" where
  "alphaNumeric_ok env =
     (\<forall>n t. length (faker_random_alphaNumeric env n t) = nat n
            \<and> set (faker_random_alphaNumeric env n t) \<subseteq> alphaNumeric_chars)"

text \<open>The ten digits, and the decimal numeral of \<open>n\<close> on exactly \<open>w\<close> digits, padded with
  zeros on the left.\<close>

definition decimal_digit :: "nat \<Rightarrow> char" where
  "decimal_digit d = ''0123456789'' ! d"

definition decimal_fixed :: "nat \<Rightarrow> nat \<Rightarrow> string" where
  "decimal_fixed w n = map (\<lambda>i. decimal_digit ((n div 10 ^ (w - 1 - i)) mod 10)) [0..<w]"

text \<open>The columns that are not primary keys, and the values the generator can produce for such
  a column: for a foreign key, the \<open>_id\<close> property of the first row some sample returned; for
  any other column, a value of \<open>generateDataByType\<close> at some draw.\<close>

definition not_primary_key :: "ColumnObj \<Rightarrow> bool" where
  "not_primary_key c = (constraint_type c \<noteq> ''PRIMARY KEY'')"

definition produced_for :: "gen_env \<Rightarrow> ColumnObj \<Rightarrow> js_value \<Rightarrow> bool" where
  "produced_for env c v =
     (constraint_type c \<noteq> ''PRIMARY KEY'' \<and>
      (\<exists>t. if constraint_type c = ''FOREIGN KEY''
           then (\<exists>rows. query_rows env (getForeignKeyQuery (foreign_column c) (foreign_table c)) t
                          = Inr rows \<and> rows \<noteq> [] \<and> v = get_prop (hd rows) ''_id'')
           else fst (generateDataByType env c t) = Inr v))"

section \<open>Example inputs\<close>

definition ex_query :: QueryData where
  "ex_query = \<lparr>label = ''firstQuery'', db = ''firstDb'', sqlString = ''select * from tests'',
                executionPlan = None\<rparr>"

definition ex_heap :: heap where
  "ex_heap = [[key ex_query \<mapsto> ex_query]]"

definition ex_world :: world where
  "ex_world = \<lparr>databases = {''shop''}, trace = []\<rparr>"

definition ex_dup_payload :: DuplicatePayload where
  "ex_dup_payload = \<lparr>newName = ''copy'', sourceDb = ''shop'', withData = True\<rparr>"

definition drop_rejected :: dup_outcomes where
  "drop_rejected = \<lparr>dump_ok = True, create_ok = True, restore_ok = False, drop_ok = False,
                     lists_ok = True, unlink_ok = True\<rparr>"

definition drop_accepted :: dup_outcomes where
  "drop_accepted = \<lparr>dump_ok = True, create_ok = True, restore_ok = False, drop_ok = True,
                     lists_ok = True, unlink_ok = True\<rparr>"

definition ex_import_outcomes :: import_outcomes where
  "ex_import_outcomes =
     \<lparr>icreate_ok = True, irestore_ok = True, idrop_ok = True, ilists_ok = True\<rparr>"

definition ex_import_payload :: ImportPayload where
  "ex_import_payload = \<lparr>newDbName = ''newdb'', filePath = ''backup.csv''\<rparr>"

definition explain_rejected :: query_outcomes where
  "explain_rejected =
     \<lparr>connect_target_ok = True, explain_response = Inl ''syntax error'',
      query_response = Inr [[(''n'', JsNumber 1)]], connect_back_ok = True, qlists_ok = True\<rparr>"

definition even_env :: gen_env where
  "even_env = \<lparr>Math_random = (\<lambda>t. 1 / 2),
                faker_random_number = (\<lambda>lo hi t. lo),
                faker_random_alphaNumeric = (\<lambda>n t. replicate (nat n) CHR ''a''),
                faker_random_boolean = (\<lambda>t. True),
                query_rows = (\<lambda>q t. Inr [])\<rparr>"

definition date_column :: ColumnObj where
  "date_column = \<lparr>column_name = ''born'', data_type = ''date'', character_maximum_length = None,
                   is_nullable = ''YES'', constraint_type = [], foreign_table = [],
                   foreign_column = []\<rparr>"

definition varchar_column :: "int option \<Rightarrow> ColumnObj" where
  "varchar_column n = \<lparr>column_name = ''name'', data_type = ''character varying'',
                        character_maximum_length = n, is_nullable = ''YES'',
                        constraint_type = [], foreign_table = [], foreign_column = []\<rparr>"

definition users_table :: "ColumnObj list" where
  "users_table =
     [\<lparr>column_name = ''id'', data_type = ''integer'', character_maximum_length = None,
       is_nullable = ''NO'', constraint_type = ''PRIMARY KEY'', foreign_table = [],
       foreign_column = []\<rparr>,
      varchar_column (Some 10),
      \<lparr>column_name = ''age'', data_type = ''integer'', character_maximum_length = None,
       is_nullable = ''YES'', constraint_type = [], foreign_table = [],
       foreign_column = []\<rparr>]"

definition users_rows :: "js_value list list" where
  "users_rows = [[JsString (quoted ''aaa''), JsNumber (- 2147483648)],
                 [JsString (quoted ''aaa''), JsNumber (- 2147483648)]]"

text \<open>A database whose table \<open>authors\<close> has a row with \<open>id\<close> 7, which every sample returns.\<close>

definition authors_env :: gen_env where
  "authors_env = even_env\<lparr>query_rows :=
       (\<lambda>q t. if q = getForeignKeyQuery ''id'' ''authors''
               then Inr [[(''id'', JsNumber 7)]] else Inl ''relation does not exist'')\<rparr>"

definition books_table :: "ColumnObj list" where
  "books_table =
     [\<lparr>column_name = ''author_id'', data_type = ''integer'', character_maximum_length = None,
       is_nullable = ''NO'', constraint_type = ''FOREIGN KEY'', foreign_table = ''authors'',
       foreign_column = ''id''\<rparr>]"

section \<open>Properties of the query collections\<close>

lemma take_delete_prop_new: "take (length h) (delete_prop (h @ [obj]) (length h) k) = h"
  by (simp add: delete_prop_def)

lemma take_assign_new: "take (length h) (assign (h @ [obj]) (length h) k v) = h"
  by (simp add: assign_def)

lemma createQuery_frame:
  "createQuery h r q = (r', h') \<Longrightarrow> r' = length h \<and> take (length h) h' = h"
  by (auto simp: createQuery_def alloc_def)

lemma deleteQuery_frame:
  "deleteQuery h r q = (r', h') \<Longrightarrow> r' = length h \<and> take (length h) h' = h"
  by (auto simp: deleteQuery_def alloc_def take_delete_prop_new)

lemma setCompare_frame:
  "setCompare h r q b = (r', h') \<Longrightarrow> r' = length h \<and> take (length h) h' = h"
  by (auto simp: setCompare_def alloc_def take_delete_prop_new take_assign_new
      split: if_splits)

lemma frame_props:
  assumes "r < length h" and "take (length h) h' = h"
  shows "props h' r = props h r"
proof -
  have len: "length h \<le> length h'"
    using assms(2) by (metis length_take min.cobounded1)
  have "h' ! r = take (length h) h' ! r"
    using assms(1) by simp
  then have "h' ! r = h ! r"
    using assms(2) by simp
  with assms(1) len show ?thesis
    by (simp add: props_def)
qed


text \<open>
  Claim C10. For every heap, every reference to an allocated collection and every query,
  \<open>createQuery\<close>, \<open>deleteQuery\<close> and \<open>setCompare\<close> return a reference different from the
  input's, leave every object that existed before the call as it was (so the input
  collection maps the same keys to the same entries), and the returned object is the copy
  with the one key set or removed.
\<close>

theorem queries_frame:
  assumes "r < length h"
  shows "(case createQuery h r q of (r', h') \<Rightarrow>
            r' \<noteq> r \<and> props h' r = props h r \<and> take (length h) h' = h
            \<and> props h' r' = (props h r)(key q \<mapsto> q))
       \<and> (case deleteQuery h r q of (r', h') \<Rightarrow>
            r' \<noteq> r \<and> props h' r = props h r \<and> take (length h) h' = h
            \<and> props h' r' = (props h r)(key q := None))
       \<and> (case setCompare h r q b of (r', h') \<Rightarrow>
            r' \<noteq> r \<and> props h' r = props h r \<and> take (length h) h' = h
            \<and> props h' r' = (if b then (props h r)(key q \<mapsto> q)
                              else (props h r)(key q := None)))"
proof (intro conjI)
  obtain r1 h1 where c: "createQuery h r q = (r1, h1)"
    by (cases "createQuery h r q")
  from createQuery_frame [OF c] have f: "r1 = length h" "take (length h) h1 = h"
    by simp_all
  have "props h1 r1 = (props h r)(key q \<mapsto> q)"
    using c by (auto simp: createQuery_def alloc_def props_def)
  with f assms frame_props [OF assms f(2)] c
  show "case createQuery h r q of (r', h') \<Rightarrow>
            r' \<noteq> r \<and> props h' r = props h r \<and> take (length h) h' = h
            \<and> props h' r' = (props h r)(key q \<mapsto> q)"
    by simp
next
  obtain r1 h1 where c: "deleteQuery h r q = (r1, h1)"
    by (cases "deleteQuery h r q")
  from deleteQuery_frame [OF c] have f: "r1 = length h" "take (length h) h1 = h"
    by simp_all
  have "props h1 r1 = (props h r)(key q := None)"
    using c by (auto simp: deleteQuery_def alloc_def props_def delete_prop_def)
  with f assms frame_props [OF assms f(2)] c
  show "case deleteQuery h r q of (r', h') \<Rightarrow>
            r' \<noteq> r \<and> props h' r = props h r \<and> take (length h) h' = h
            \<and> props h' r' = (props h r)(key q := None)"
    by simp
next
  obtain r1 h1 where c: "setCompare h r q b = (r1, h1)"
    by (cases "setCompare h r q b")
  from setCompare_frame [OF c] have f: "r1 = length h" "take (length h) h1 = h"
    by simp_all
  have "props h1 r1 = (if b then (props h r)(key q \<mapsto> q) else (props h r)(key q := None))"
    using c
    by (auto simp: setCompare_def alloc_def props_def delete_prop_def assign_def
        split: if_splits)
  with f assms frame_props [OF assms f(2)] c
  show "case setCompare h r q b of (r', h') \<Rightarrow>
            r' \<noteq> r \<and> props h' r = props h r \<and> take (length h) h' = h
            \<and> props h' r' = (if b then (props h r)(key q \<mapsto> q)
                              else (props h r)(key q := None))"
    by simp
qed

theorem queries_frame_witness:
  "(0::nat) < length ex_heap
   \<and> fst (createQuery ex_heap 0 ex_query) \<noteq> 0
   \<and> props (snd (createQuery ex_heap 0 ex_query)) 0 = props ex_heap 0
   \<and> fst (deleteQuery ex_heap 0 ex_query) \<noteq> 0
   \<and> props (snd (deleteQuery ex_heap 0 ex_query)) 0 (key ex_query) = Some ex_query
   \<and> props (snd (deleteQuery ex_heap 0 ex_query)) (fst (deleteQuery ex_heap 0 ex_query))
        (key ex_query) = None
   \<and> fst (setCompare ex_heap 0 ex_query False) \<noteq> 0
   \<and> props (snd (setCompare ex_heap 0 ex_query False)) 0 (key ex_query) = Some ex_query"
proof -
  have h: "(0::nat) < length ex_heap"
    by (simp add: ex_heap_def)
  have p: "props ex_heap 0 (key ex_query) = Some ex_query"
    by (simp add: props_def ex_heap_def)
  from queries_frame [OF h, of ex_query False] h p show ?thesis
    by (auto split: prod.splits)
qed

section \<open>Properties of the lifecycle handlers\<close>

lemmas duplicate_defs = duplicate_db_def duplicate_try_def duplicate_finally_def db_query_def
  emit_def Let_def

lemmas import_defs = import_db_def import_try_def db_query_def emit_def Let_def

text \<open>
  Claim C1, as stated: whenever the dump and the create succeed and the restore fails,
  \<open>newName\<close> does not exist after \<open>duplicate\<close> returns with its error. It fails when the
  compensating \<open>DROP DATABASE\<close> is itself rejected: the handler then returns with that
  rejection and the database it created is still there.
\<close>

theorem duplicate_restore_failure_counterexample:
  "dump_ok drop_rejected \<and> create_ok drop_rejected \<and> \<not> restore_ok drop_rejected
   \<and> fst (duplicate_db ''/home/u'' ''/'' drop_rejected ex_dup_payload ex_world)
       = Inl (Rejected (DbQuery (dropDBFunc ''copy'')))
   \<and> newName ex_dup_payload
       \<in> databases (snd (duplicate_db ''/home/u'' ''/'' drop_rejected ex_dup_payload ex_world))"
  by (simp add: duplicate_defs drop_rejected_def ex_dup_payload_def ex_world_def)

text \<open>
  Claim C1, amended. Whenever the dump and the create succeed and the restore fails, the
  handler returns with an error, and before that it has issued, in this order, the dump,
  \<open>CREATE DATABASE newName\<close>, the restore and \<open>DROP DATABASE newName\<close>. When the drop is
  accepted, the error is \<open>Failed to populate newly created database\<close> and \<open>newName\<close> does not
  exist afterwards; when the drop is rejected, the error is that rejection and \<open>newName\<close>
  still exists.
\<close>

theorem duplicate_restore_failure_cleanup:
  assumes "dump_ok oc" and "create_ok oc" and "\<not> restore_ok oc"
  shows "\<exists>e post.
      fst (duplicate_db homedir cwd oc p w) = Inl e
    \<and> trace (snd (duplicate_db homedir cwd oc p w))
        = trace w @ [Send ''async-started'',
             PromExecute (if withData p
                          then runFullCopyFunc (sourceDb p) (tempFilePath homedir cwd (newName p))
                          else runHollowCopyFunc (sourceDb p) (tempFilePath homedir cwd (newName p))),
             DbQuery (createDBFunc (newName p)),
             PromExecute (runSQLFunc (newName p) (tempFilePath homedir cwd (newName p))),
             DbQuery (dropDBFunc (newName p))] @ post
    \<and> (drop_ok oc \<longrightarrow> e = Error ''Failed to populate newly created database''
                        \<and> newName p \<notin> databases (snd (duplicate_db homedir cwd oc p w)))
    \<and> (\<not> drop_ok oc \<longrightarrow> e = Rejected (DbQuery (dropDBFunc (newName p)))
                        \<and> newName p \<in> databases (snd (duplicate_db homedir cwd oc p w)))"
  using assms by (cases "drop_ok oc"; cases "unlink_ok oc"; simp add: duplicate_defs)

theorem duplicate_restore_failure_cleanup_witness:
  "dump_ok drop_accepted \<and> create_ok drop_accepted \<and> \<not> restore_ok drop_accepted
   \<and> drop_ok drop_accepted
   \<and> fst (duplicate_db ''/home/u'' ''/'' drop_accepted ex_dup_payload ex_world)
        = Inl (Error ''Failed to populate newly created database'')
   \<and> newName ex_dup_payload
        \<notin> databases (snd (duplicate_db ''/home/u'' ''/'' drop_accepted ex_dup_payload ex_world))"
proof -
  have h: "dump_ok drop_accepted" "create_ok drop_accepted" "\<not> restore_ok drop_accepted"
    "drop_ok drop_accepted"
    by (simp_all add: drop_accepted_def)
  from duplicate_restore_failure_cleanup [OF h(1-3), of "''/home/u''" "''/''" ex_dup_payload ex_world] h
  show ?thesis by auto
qed

text \<open>
  On an extension that is neither \<open>.sql\<close> nor \<open>.tar\<close>, \<open>import-db\<close> throws right after the
  create: no drop is issued, and the database it created stays.
\<close>

lemma import_unsupported_extension:
  assumes "icreate_ok oc" and "toLowerCase (extname (filePath p)) \<notin> {''.sql'', ''.tar''}"
  shows "fst (import_db oc p w) = Inl (Error ''Invalid file extension'')"
    and "newDbName p \<in> databases (snd (import_db oc p w))"
    and "trace (snd (import_db oc p w))
          = trace w @ [Send ''async-started'', DbQuery (createDBFunc (newDbName p)),
                       Send ''async-complete'']"
  using assms by (simp_all add: import_defs)

text \<open>The sibling path: when the restore fails, \<open>import-db\<close> does issue the drop.\<close>

lemma import_restore_failure_drops:
  assumes "icreate_ok oc" and "toLowerCase (extname (filePath p)) = ''.sql''"
    and "\<not> irestore_ok oc" and "idrop_ok oc"
  shows "fst (import_db oc p w) = Inl (Error ''Failed to populate database'')"
    and "newDbName p \<notin> databases (snd (import_db oc p w))"
  using assms by (simp_all add: import_defs)

text \<open>
  Claim C2. An import from a file with an unsupported extension fails, and the database
  created in the first step is dropped before the error is surfaced. The handler does not do
  that: importing \<open>backup.csv\<close> as \<open>newdb\<close> fails with \<open>Invalid file extension\<close> after
  issuing the create only, and \<open>newdb\<close> exists afterwards.
\<close>

theorem import_unsupported_leaves_database:
  "import_db ex_import_outcomes ex_import_payload ex_world
   = (Inl (Error ''Invalid file extension''),
      \<lparr>databases = {''newdb'', ''shop''},
       trace = [Send ''async-started'', DbQuery (createDBFunc ''newdb''),
                Send ''async-complete'']\<rparr>)
   \<and> newDbName ex_import_payload
       \<in> databases (snd (import_db ex_import_outcomes ex_import_payload ex_world))"
  by (simp add: import_defs extname_def basename_def toLowerCase_def lower_char_def
      ex_import_outcomes_def ex_import_payload_def ex_world_def)

section \<open>Properties of run-query\<close>

lemma run_explain_failed: "explain_failed oc \<Longrightarrow> run_explain oc = (None, Some explain_failure)"
  by (auto simp: explain_failed_def run_explain_def split: sum.splits)

lemma run_query_try_reached:
  assumes "selectedDb = targetDb \<or> connect_target_ok oc"
  shows "run_query_try oc targetDb s selectedDb tr =
          (Inr \<lparr>result_db = targetDb, result_sqlString = s,
                returnedRows = fst (run_statement oc (snd (run_explain oc))),
                explainResults = fst (run_explain oc),
                error = snd (run_statement oc (snd (run_explain oc)))\<rparr>,
           (if selectedDb \<noteq> targetDb then tr @ [ConnectToDB targetDb] else tr)
             @ [DbQueryText (explain_sql s), DbQueryText s])"
  using assms by (auto simp: run_query_try_def Let_def split: prod.splits)

lemma run_query_finally_trace: "\<exists>post. snd (run_query_finally oc t sel tr) = tr @ post"
  by (auto simp: run_query_finally_def Let_def)

lemma run_query_finally_ok:
  "sel = t \<or> connect_back_ok oc \<Longrightarrow> qlists_ok oc \<Longrightarrow>
   fst (run_query_finally oc t sel tr) = None"
  by (auto simp: run_query_finally_def Let_def)

text \<open>
  Claim C7. Once the handler is connected to the target database, it issues the wrapped
  \<open>EXPLAIN\<close> and then the statement itself, whatever either answers, and its \<open>try\<close> block
  yields a result \<open>r\<close> (the value the handler returns when reconnecting and refreshing the
  lists succeed). A failed plan capture leaves \<open>explainResults\<close> absent and, when the
  statement succeeds, its message in \<open>error\<close>, with the rows present; a rejected statement
  puts its own message in \<open>error\<close>, overwriting the other, and leaves a captured plan in
  place; \<open>error\<close> is absent exactly when neither step failed.
\<close>

theorem run_query_steps_independent:
  assumes reach: "selectedDb = targetDb \<or> connect_target_ok oc"
  shows "\<exists>r pre post.
      run_query_try oc targetDb s selectedDb (tr @ [Send ''async-started''])
        = (Inr r, pre @ [DbQueryText (explain_sql s), DbQueryText s])
    \<and> snd (run_query oc targetDb s selectedDb tr)
        = pre @ [DbQueryText (explain_sql s), DbQueryText s] @ post
    \<and> ((selectedDb = targetDb \<or> connect_back_ok oc) \<and> qlists_ok oc
         \<longrightarrow> fst (run_query oc targetDb s selectedDb tr) = Inr r)
    \<and> (explain_failed oc \<longrightarrow> explainResults r = None)
    \<and> (explain_failed oc \<and> \<not> statement_failed oc \<longrightarrow> error r = Some explain_failure)
    \<and> (\<forall>e. query_response oc = Inl e \<longrightarrow> error r = Some e \<and> returnedRows r = None)
    \<and> (\<forall>rows. query_response oc = Inr rows \<longrightarrow> returnedRows r = Some rows)
    \<and> (\<forall>results. explain_response oc = Inr results \<and> 1 < length results
          \<longrightarrow> explainResults r = Some (results ! 1))
    \<and> (error r = None \<longleftrightarrow> \<not> explain_failed oc \<and> \<not> statement_failed oc)"
proof -
  define pre where "pre = (if selectedDb \<noteq> targetDb
               then (tr @ [Send ''async-started'']) @ [ConnectToDB targetDb]
               else tr @ [Send ''async-started''])"
  define r where "r = \<lparr>result_db = targetDb, result_sqlString = s,
                returnedRows = fst (run_statement oc (snd (run_explain oc))),
                explainResults = fst (run_explain oc),
                error = snd (run_statement oc (snd (run_explain oc)))\<rparr>"
  define mid where "mid = pre @ [DbQueryText (explain_sql s), DbQueryText s]"
  have t: "run_query_try oc targetDb s selectedDb (tr @ [Send ''async-started'']) = (Inr r, mid)"
    using run_query_try_reached [OF reach] by (simp add: r_def mid_def pre_def)
  obtain post where post: "snd (run_query_finally oc targetDb selectedDb mid) = mid @ post"
    using run_query_finally_trace by blast
  have run: "run_query oc targetDb s selectedDb tr =
     (case fst (run_query_finally oc targetDb selectedDb mid) of
        Some e \<Rightarrow> Inl e | None \<Rightarrow> Inr r,
      snd (run_query_finally oc targetDb selectedDb mid))"
    unfolding run_query_def t by (simp split: prod.splits)
  have tr: "snd (run_query oc targetDb s selectedDb tr)
              = pre @ [DbQueryText (explain_sql s), DbQueryText s] @ post"
    unfolding run using post by (simp add: mid_def)
  have res: "(selectedDb = targetDb \<or> connect_back_ok oc) \<and> qlists_ok oc
         \<longrightarrow> fst (run_query oc targetDb s selectedDb tr) = Inr r"
    unfolding run using run_query_finally_ok [of selectedDb targetDb oc mid] by auto
  have e1: "explain_failed oc \<longrightarrow> explainResults r = None"
    by (simp add: r_def run_explain_failed)
  have e2: "explain_failed oc \<and> \<not> statement_failed oc \<longrightarrow> error r = Some explain_failure"
    by (auto simp: r_def run_explain_failed statement_failed_def run_statement_def
        split: sum.splits)
  have e3: "\<forall>e. query_response oc = Inl e \<longrightarrow> error r = Some e \<and> returnedRows r = None"
    by (simp add: r_def run_statement_def)
  have e4: "\<forall>rows. query_response oc = Inr rows \<longrightarrow> returnedRows r = Some rows"
    by (simp add: r_def run_statement_def)
  have e5: "\<forall>results. explain_response oc = Inr results \<and> 1 < length results
          \<longrightarrow> explainResults r = Some (results ! 1)"
    by (simp add: r_def run_explain_def)
  have e6: "error r = None \<longleftrightarrow> \<not> explain_failed oc \<and> \<not> statement_failed oc"
    by (auto simp: r_def run_statement_def run_explain_def explain_failed_def
        statement_failed_def split: sum.splits)
  show ?thesis
    by (rule exI [of _ r], rule exI [of _ pre], rule exI [of _ post])
      (intro conjI t [unfolded mid_def] tr res e1 e2 e3 e4 e5 e6)
qed

theorem run_query_steps_independent_witness:
  "explain_failed explain_rejected \<and> \<not> statement_failed explain_rejected
   \<and> (\<exists>r pre post.
        snd (run_query explain_rejected ''shop'' ''SELECT 1 AS n'' ''shop'' [])
          = pre @ [DbQueryText (explain_sql ''SELECT 1 AS n''), DbQueryText ''SELECT 1 AS n'']
              @ post
      \<and> fst (run_query explain_rejected ''shop'' ''SELECT 1 AS n'' ''shop'' []) = Inr r
      \<and> error r = Some explain_failure
      \<and> explainResults r = None
      \<and> returnedRows r = Some [[(''n'', JsNumber 1)]])"
proof -
  have f: "explain_failed explain_rejected" "\<not> statement_failed explain_rejected"
    "qlists_ok explain_rejected"
    "query_response explain_rejected = Inr [[(''n'', JsNumber 1)]]"
    by (simp_all add: explain_failed_def statement_failed_def explain_rejected_def)
  have reach: "''shop'' = ''shop'' \<or> connect_target_ok explain_rejected"
    by simp
  from run_query_steps_independent [OF reach, of "''SELECT 1 AS n''" "[]"]
  obtain r pre post where
    "snd (run_query explain_rejected ''shop'' ''SELECT 1 AS n'' ''shop'' [])
       = pre @ [DbQueryText (explain_sql ''SELECT 1 AS n''), DbQueryText ''SELECT 1 AS n'']
           @ post"
    "(''shop'' = ''shop'' \<or> connect_back_ok explain_rejected) \<and> qlists_ok explain_rejected
       \<longrightarrow> fst (run_query explain_rejected ''shop'' ''SELECT 1 AS n'' ''shop'' []) = Inr r"
    "explain_failed explain_rejected \<longrightarrow> explainResults r = None"
    "explain_failed explain_rejected \<and> \<not> statement_failed explain_rejected
       \<longrightarrow> error r = Some explain_failure"
    "\<forall>rows. query_response explain_rejected = Inr rows \<longrightarrow> returnedRows r = Some rows"
    by blast
  with f show ?thesis by blast
qed

section \<open>Properties of the generated values\<close>

subsection \<open>Rounding to a double\<close>

lemma pow2_pos: "0 < pow2 k"
  by (simp add: pow2_def)

lemma pow2_add: "pow2 (a + b) = pow2 a * pow2 b"
  by (simp add: pow2_def power_int_add)

lemma pow2_nat: "pow2 (int n) = 2 ^ n"
  by (simp add: pow2_def)

lemma pow2_neg_nat: "pow2 (- int n) = 1 / 2 ^ n"
  by (simp add: pow2_def power_int_minus inverse_eq_divide)

lemma pow2_mono: "a \<le> b \<Longrightarrow> pow2 a \<le> pow2 b"
  by (simp add: pow2_def power_int_increasing)

lemma pow2_less_imp: "pow2 a < pow2 b \<Longrightarrow> a < b"
  using pow2_mono [of b a] by (cases "a < b") simp_all

lemma bit_length_pos: "0 < bit_length n"
  by (subst bit_length.simps) simp

lemma bit_length_bounds:
  "0 < n \<Longrightarrow> 2 ^ (bit_length n - 1) \<le> n \<and> n < 2 ^ bit_length n"
proof (induction n rule: bit_length.induct)
  case (1 n)
  show ?case
  proof (cases "n < 2")
    case True
    with "1.prems" have "n = 1" by simp
    then show ?thesis by (simp add: bit_length.simps)
  next
    case False
    then have pos: "0 < n div 2" by simp
    from "1.IH" [OF False pos] have
      lo: "2 ^ (bit_length (n div 2) - 1) \<le> n div 2"
      and hi: "n div 2 < 2 ^ bit_length (n div 2)"
      by simp_all
    have len: "bit_length n = Suc (bit_length (n div 2))"
      using False by (subst bit_length.simps) simp
    have "2 * 2 ^ (bit_length (n div 2) - 1) \<le> 2 * (n div 2)"
      using lo by simp
    also have "\<dots> \<le> n" by simp
    finally have a: "2 ^ (bit_length n - 1) \<le> n"
      using len bit_length_pos [of "n div 2"]
      by (simp add: power_Suc [symmetric] del: power_Suc)
    have "n < 2 * (n div 2 + 1)" by presburger
    also have "\<dots> \<le> 2 * 2 ^ bit_length (n div 2)"
      using hi by simp
    finally have b: "n < 2 ^ bit_length n"
      using len by simp
    from a b show ?thesis by simp
  qed
qed

lemma exponent2_bounds:
  assumes "0 < x"
  shows "pow2 (exponent2 x) \<le> x" and "x < pow2 (exponent2 x + 1)"
proof -
  have "pow2 (exponent2 x) \<le> x \<and> x < pow2 (exponent2 x + 1)"
  proof (cases "1 \<le> x")
    case True
    define n where "n = nat \<lfloor>x\<rfloor>"
    define l where "l = bit_length n"
    have fl: "1 \<le> \<lfloor>x\<rfloor>" using True by simp
    then have rn: "real n = of_int \<lfloor>x\<rfloor>" unfolding n_def by simp
    have n: "0 < n" "real n \<le> x" "x < real n + 1"
    proof -
      show "0 < n" unfolding n_def using fl by simp
      show "real n \<le> x" unfolding rn by (rule of_int_floor_le)
      show "x < real n + 1" unfolding rn using floor_correct [of x] by simp
    qed
    from bit_length_bounds [OF n(1)] have d: "2 ^ (l - 1) \<le> n" "n < 2 ^ l"
      by (simp_all add: l_def)
    have lpos: "0 < l" unfolding l_def by (rule bit_length_pos)
    have e0: "exponent2 x = int l - 1"
      using True by (simp add: exponent2_def n_def l_def)
    have e: "exponent2 x = int (l - 1)"
      using e0 lpos by arith
    have e1: "exponent2 x + 1 = int l"
      using e0 by simp
    have r1: "(2::real) ^ (l - 1) \<le> real n"
      using of_nat_mono [OF d(1), where ?'a = real] by simp
    have lo: "pow2 (exponent2 x) \<le> x"
      unfolding e pow2_nat using r1 n(2) by linarith
    have "n + 1 \<le> 2 ^ l" using d(2) by simp
    from of_nat_mono [OF this, where ?'a = real] have r2: "real n + 1 \<le> (2::real) ^ l"
      by simp
    have hi: "x < pow2 (exponent2 x + 1)"
      unfolding e1 pow2_nat using r2 n(3) by linarith
    from lo hi show ?thesis ..
  next
    case False
    define y where "y = 1 / x"
    define m where "m = nat (\<lceil>y\<rceil> - 1)"
    define l where "l = bit_length m"
    have y: "1 < y" using False assms by (simp add: y_def)
    have c: "2 \<le> \<lceil>y\<rceil>" using y by linarith
    have rm: "real m = of_int \<lceil>y\<rceil> - 1" unfolding m_def using c by simp
    have m: "0 < m" "real m < y" "y \<le> real m + 1"
    proof -
      show "0 < m" unfolding m_def using c by simp
      show "real m < y" unfolding rm using ceiling_correct [of y] by simp
      show "y \<le> real m + 1" unfolding rm using ceiling_correct [of y] by simp
    qed
    from bit_length_bounds [OF m(1)] have d: "2 ^ (l - 1) \<le> m" "m < 2 ^ l"
      by (simp_all add: l_def)
    have lpos: "0 < l" unfolding l_def by (rule bit_length_pos)
    have e: "exponent2 x = - int l"
      using False by (simp add: exponent2_def m_def l_def y_def)
    have e1: "exponent2 x + 1 = - int (l - 1)"
      using e lpos by arith
    have xy: "x = 1 / y" using assms by (simp add: y_def)
    have "m + 1 \<le> 2 ^ l" using d(2) by simp
    from of_nat_mono [OF this, where ?'a = real] have r2: "real m + 1 \<le> (2::real) ^ l"
      by simp
    have "y \<le> 2 ^ l" using r2 m(3) by linarith
    then have "1 / 2 ^ l \<le> 1 / y" using y by (intro divide_left_mono) simp_all
    moreover have "pow2 (exponent2 x) = 1 / 2 ^ l"
      unfolding e by (rule pow2_neg_nat)
    ultimately have lo: "pow2 (exponent2 x) \<le> x"
      using xy by linarith
    have r1: "(2::real) ^ (l - 1) \<le> real m"
      using of_nat_mono [OF d(1), where ?'a = real] by simp
    have "2 ^ (l - 1) < y" using r1 m(2) by linarith
    moreover have "0 < y" using y by simp
    ultimately have "1 / y < 1 / 2 ^ (l - 1)" by (intro divide_strict_left_mono) simp_all
    moreover have "pow2 (exponent2 x + 1) = 1 / 2 ^ (l - 1)"
      unfolding e1 by (rule pow2_neg_nat)
    ultimately have hi: "x < pow2 (exponent2 x + 1)"
      using xy by linarith
    from lo hi show ?thesis ..
  qed
  then show "pow2 (exponent2 x) \<le> x" and "x < pow2 (exponent2 x + 1)" by simp_all
qed

lemma round_half_even_cases:
  "round_half_even z = \<lfloor>z\<rfloor> \<or> round_half_even z = \<lfloor>z\<rfloor> + 1"
  by (simp add: round_half_even_def Let_def)

lemma round_half_even_ge: "of_int k \<le> z \<Longrightarrow> k \<le> round_half_even z"
proof -
  assume "of_int k \<le> z"
  then have "k \<le> \<lfloor>z\<rfloor>" by (simp add: le_floor_iff)
  with round_half_even_cases [of z] show ?thesis by linarith
qed

lemma round_half_even_below_half:
  assumes "z < of_int k + 1 / 2"
  shows "round_half_even z \<le> k"
proof (cases "\<lfloor>z\<rfloor> < k")
  case True
  with round_half_even_cases [of z] show ?thesis by linarith
next
  case False
  have "z < of_int (k + 1)" using assms by simp
  then have "\<lfloor>z\<rfloor> < k + 1" by (simp only: floor_less_iff)
  with False have f: "\<lfloor>z\<rfloor> = k" by simp
  then have "z - of_int \<lfloor>z\<rfloor> < 1 / 2" using assms by simp
  then show ?thesis using f by (simp add: round_half_even_def Let_def)
qed

lemma round_half_even_le: "z \<le> of_int k \<Longrightarrow> round_half_even z \<le> k"
  by (rule round_half_even_below_half) simp

lemma round_double_pos:
  assumes "0 < x"
  shows "round_double x
         = of_int (round_half_even (x / pow2 (max (exponent2 x - 52) (- 1074))))
             * pow2 (max (exponent2 x - 52) (- 1074))"
  using assms by (simp add: round_double_def Let_def)

text \<open>Rounding does not go above a number of the grid of binade \<open>j\<close> when the argument lies
  below that binade's end and less than half a grid step above the number.\<close>

lemma round_double_le_grid:
  assumes x: "0 < x" "x < pow2 (j + 1)"
    and j: "- 1074 \<le> j - 52"
    and near: "x < (of_int K + 1 / 2) * pow2 (j - 52)"
    and low: "pow2 j \<le> of_int K * pow2 (j - 52)"
  shows "round_double x \<le> of_int K * pow2 (j - 52)"
proof -
  define e where "e = exponent2 x"
  define q where "q = max (e - 52) (- 1074)"
  define g where "g = pow2 q"
  define z where "z = x / g"
  have gpos: "0 < g" unfolding g_def by (rule pow2_pos)
  have rd: "round_double x = of_int (round_half_even z) * g"
    using round_double_pos [OF x(1)] by (simp add: z_def g_def q_def e_def)
  have "pow2 e < pow2 (j + 1)"
    using exponent2_bounds(1) [OF x(1)] x(2) by (simp add: e_def)
  then have ej: "e \<le> j" using pow2_less_imp [of e "j + 1"] by simp
  then have qj: "q \<le> j - 52" using j by (simp add: q_def)
  show ?thesis
  proof (cases "q = j - 52")
    case True
    have "z < of_int K + 1 / 2"
      using near gpos by (simp add: z_def g_def True pos_divide_less_eq)
    then have "round_half_even z \<le> K" by (rule round_half_even_below_half)
    then have "of_int (round_half_even z) * g \<le> of_int K * g"
      using gpos by (intro mult_right_mono) simp_all
    then show ?thesis by (simp add: rd g_def True)
  next
    case False
    with qj have lt: "q < j - 52" by simp
    have "e - 52 \<le> q" by (simp add: q_def)
    with lt have "e + 1 \<le> j" by simp
    then have "pow2 (e + 1) \<le> pow2 j" by (rule pow2_mono)
    with exponent2_bounds(2) [OF x(1)] have xj: "x < pow2 j" by (simp add: e_def)
    define d where "d = nat (j - q)"
    have "q + int d = j" using lt by (simp add: d_def)
    then have pj: "pow2 j = g * 2 ^ d"
      using pow2_add [of q "int d"] by (simp add: g_def pow2_nat)
    have "z < 2 ^ d"
      using xj gpos by (simp add: z_def pj pos_divide_less_eq mult.commute)
    then have "z \<le> of_int (2 ^ d)" by simp
    then have "round_half_even z \<le> 2 ^ d" by (rule round_half_even_le)
    then have "(of_int (round_half_even z) :: real) \<le> of_int (2 ^ d)" by (simp only: of_int_le_iff)
    then have "of_int (round_half_even z) * g \<le> of_int (2 ^ d) * g"
      using gpos by (intro mult_right_mono) simp_all
    also have "\<dots> = pow2 j" by (simp add: pj)
    finally show ?thesis using low by (simp add: rd)
  qed
qed

lemma grid_of_int:
  assumes "0 < x" "x < pow2 53"
  shows "\<exists>n. pow2 (max (exponent2 x - 52) (- 1074)) * 2 ^ n = 1"
proof -
  define q where "q = max (exponent2 x - 52) (- 1074)"
  have "pow2 (exponent2 x) < pow2 53"
    using exponent2_bounds(1) [OF assms(1)] assms(2) by simp
  then have "exponent2 x < 53" by (rule pow2_less_imp)
  then have q: "q \<le> 0" by (simp add: q_def)
  define n where "n = nat (- q)"
  have qn: "q + int n = 0" using q by (simp add: n_def)
  have "pow2 q * pow2 (int n) = pow2 (q + int n)"
    by (simp only: pow2_add)
  also have "\<dots> = 1" unfolding qn by (simp add: pow2_def)
  finally have "pow2 q * 2 ^ n = 1" unfolding pow2_nat .
  then show ?thesis unfolding q_def by blast
qed

lemma round_double_le_int:
  assumes "0 < x" "x < pow2 53" "x \<le> of_int c"
  shows "round_double x \<le> of_int c"
proof -
  define g where "g = pow2 (max (exponent2 x - 52) (- 1074))"
  from grid_of_int [OF assms(1,2)] obtain n where n: "g * 2 ^ n = 1"
    by (auto simp: g_def)
  have gpos: "0 < g" unfolding g_def by (rule pow2_pos)
  have inv: "1 / g = 2 ^ n" using n gpos by (simp add: field_simps)
  have "x / g = x * (1 / g)" by simp
  then have xg: "x / g = x * 2 ^ n" by (simp only: inv)
  have "x / g \<le> of_int c * 2 ^ n"
    unfolding xg using assms(3) by (intro mult_right_mono) simp_all
  then have "x / g \<le> of_int (c * 2 ^ n)" by simp
  then have "round_half_even (x / g) \<le> c * 2 ^ n" by (rule round_half_even_le)
  then have "(of_int (round_half_even (x / g)) :: real) \<le> of_int (c * 2 ^ n)"
    by (simp only: of_int_le_iff)
  then have "of_int (round_half_even (x / g)) * g \<le> of_int (c * 2 ^ n) * g"
    using gpos by (intro mult_right_mono) simp_all
  also have "\<dots> = of_int c * (g * 2 ^ n)" by simp
  finally show ?thesis using n by (simp add: round_double_pos [OF assms(1)] g_def)
qed

lemma round_double_ge_int:
  assumes "0 < x" "x < pow2 53" "of_int c \<le> x"
  shows "of_int c \<le> round_double x"
proof -
  define g where "g = pow2 (max (exponent2 x - 52) (- 1074))"
  from grid_of_int [OF assms(1,2)] obtain n where n: "g * 2 ^ n = 1"
    by (auto simp: g_def)
  have gpos: "0 < g" unfolding g_def by (rule pow2_pos)
  have inv: "1 / g = 2 ^ n" using n gpos by (simp add: field_simps)
  have "x / g = x * (1 / g)" by simp
  then have xg: "x / g = x * 2 ^ n" by (simp only: inv)
  have "of_int c * 2 ^ n \<le> x / g"
    unfolding xg using assms(3) by (intro mult_right_mono) simp_all
  then have "of_int (c * 2 ^ n) \<le> x / g" by simp
  then have "c * 2 ^ n \<le> round_half_even (x / g)" by (rule round_half_even_ge)
  then have "(of_int (c * 2 ^ n) :: real) \<le> of_int (round_half_even (x / g))"
    by (simp only: of_int_le_iff)
  then have "of_int (c * 2 ^ n) * g \<le> of_int (round_half_even (x / g)) * g"
    using gpos by (intro mult_right_mono) simp_all
  moreover have "of_int (c * 2 ^ n) * g = of_int c * (g * 2 ^ n)" by simp
  ultimately have "of_int c * (g * 2 ^ n) \<le> of_int (round_half_even (x / g)) * g"
    by (simp add: ac_simps)
  then have "of_int c \<le> of_int (round_half_even (x / g)) * g"
    unfolding n by simp
  then show ?thesis unfolding round_double_pos [OF assms(1)] g_def .
qed

lemma round_double_nonneg: "0 \<le> x \<Longrightarrow> 0 \<le> round_double x"
proof (cases "x = 0")
  case True
  then show ?thesis by (simp add: round_double_def)
next
  case False
  assume "0 \<le> x"
  with False have x: "0 < x" by simp
  define g where "g = pow2 (max (exponent2 x - 52) (- 1074))"
  have gpos: "0 < g" unfolding g_def by (rule pow2_pos)
  have "of_int 0 \<le> x / g" using x gpos by simp
  then have "0 \<le> round_half_even (x / g)" by (rule round_half_even_ge)
  then show ?thesis using gpos by (simp add: round_double_pos [OF x] g_def)
qed

lemma round_double_nonpos: "x \<le> 0 \<Longrightarrow> round_double x \<le> 0"
proof (cases "x = 0")
  case True
  then show ?thesis by (simp add: round_double_def)
next
  case False
  assume "x \<le> 0"
  with False have x: "x < 0" by simp
  define g where "g = pow2 (max (exponent2 \<bar>x\<bar> - 52) (- 1074))"
  have gpos: "0 < g" unfolding g_def by (rule pow2_pos)
  have "x / g \<le> of_int 0" using x gpos by (simp add: divide_nonpos_pos)
  then have "round_half_even (x / g) \<le> 0" by (rule round_half_even_le)
  then have "of_int (round_half_even (x / g)) * g \<le> 0"
    using gpos by (simp add: mult_le_0_iff)
  then show ?thesis using x by (simp add: round_double_def Let_def g_def)
qed

subsection \<open>Random whole numbers\<close>

lemma pow2_53: "pow2 53 = 2 ^ 53"
  by (simp add: pow2_def)

text \<open>\<open>getRandomInt(a, b)\<close> for whole numbers \<open>1 \<le> a < b\<close> lies between \<open>a\<close> and \<open>b\<close>, both
  included: the rounding of the product or of the sum can reach \<open>b\<close>.\<close>

lemma getRandomInt_range:
  assumes r: "0 \<le> Math_random env t" "Math_random env t \<le> 1 - 1 / 2 ^ 53"
    and ab: "1 \<le> a" "a < b" "b \<le> 2 ^ 52"
  shows "a \<le> fst (getRandomInt env (of_int a) (of_int b) t)"
    and "fst (getRandomInt env (of_int a) (of_int b) t) \<le> b"
proof -
  define k where "k = b - a"
  define x where "x = Math_random env t * of_int k"
  define p where "p = round_double x"
  define s where "s = p + of_int a"
  have k: "0 < k" "k \<le> 2 ^ 52" using ab by (simp_all add: k_def)
  have rk: "(of_int k :: real) \<le> 2 ^ 52"
    using k(2) by (metis of_int_le_iff of_int_numeral of_int_power)
  have x0: "0 \<le> x" unfolding x_def using r(1) k(1) by simp
  have "Math_random env t * of_int k \<le> 1 * of_int k"
    using r(2) k(1) by (intro mult_right_mono) simp_all
  then have xk: "x \<le> of_int k" by (simp add: x_def)
  have p0: "0 \<le> p" unfolding p_def using x0 by (rule round_double_nonneg)
  have pk: "p \<le> of_int k"
  proof (cases "x = 0")
    case True
    then show ?thesis using k(1) by (simp add: p_def round_double_def)
  next
    case False
    with x0 have "0 < x" by simp
    moreover have "x < pow2 53" unfolding pow2_53 using xk rk by simp
    ultimately show ?thesis unfolding p_def using xk by (rule round_double_le_int)
  qed
  have rb: "(of_int b :: real) \<le> 2 ^ 52"
    using ab(3) by (metis of_int_le_iff of_int_numeral of_int_power)
  have sa: "of_int a \<le> s" unfolding s_def using p0 by simp
  have sb: "s \<le> of_int b" unfolding s_def using pk by (simp add: k_def)
  have "(1::real) \<le> of_int a" using ab(1) by simp
  with sa have spos: "0 < s" by linarith
  have s53: "s < pow2 53" unfolding pow2_53 using sb rb by simp
  have g: "fst (getRandomInt env (of_int a) (of_int b) t) = \<lfloor>round_double s\<rfloor>"
    by (simp add: getRandomInt_def double_add_def double_mul_def s_def p_def x_def k_def)
  have "of_int a \<le> round_double s" using spos s53 sa by (rule round_double_ge_int)
  then show "a \<le> fst (getRandomInt env (of_int a) (of_int b) t)"
    unfolding g by (simp only: le_floor_iff)
  have "round_double s \<le> of_int b" using spos s53 sb by (rule round_double_le_int)
  then have "\<lfloor>round_double s\<rfloor> \<le> \<lfloor>(of_int b :: real)\<rfloor>" by (rule floor_mono)
  then show "fst (getRandomInt env (of_int a) (of_int b) t) \<le> b"
    unfolding g by simp
qed

lemma getRandomInt_draws: "snd (getRandomInt env lo hi t) = t + 1"
  by (simp add: getRandomInt_def Let_def)

text \<open>\<open>getRandomInt(1, k + 1)\<close> stays at \<open>k\<close> or below when \<open>k\<close> and \<open>k + 1\<close> lie in one
  binade above its start: the product is rounded at least one grid step below \<open>k\<close>, and
  adding 1 is then exact enough not to reach \<open>k + 1\<close>.\<close>

lemma getRandomInt_below:
  assumes r: "0 \<le> Math_random env t" "Math_random env t \<le> 1 - 1 / 2 ^ 53"
    and j: "0 \<le> j" "j \<le> 51"
    and kj: "2 ^ nat j < k" "k + 1 \<le> 2 ^ nat (j + 1)"
  shows "fst (getRandomInt env 1 (of_int (k + 1)) t) \<le> k"
proof -
  define g where "g = pow2 (j - 52)"
  define m where "m = nat (52 - j)"
  define x where "x = Math_random env t * of_int k"
  define p where "p = round_double x"
  define s where "s = p + 1"
  have gpos: "0 < g" unfolding g_def by (rule pow2_pos)
  have "(j - 52) + int m = 0" using j by (simp add: m_def)
  then have "pow2 (j - 52) * pow2 (int m) = 1"
    using pow2_add [of "j - 52" "int m"] by (simp add: pow2_def)
  then have gm: "g * 2 ^ m = 1" by (simp add: g_def pow2_nat)
  have mpos: "0 < m" using j by (simp add: m_def)
  have "g = g * 2 ^ m / 2 ^ m" by simp
  then have g_eq: "g = 1 / 2 ^ m" by (simp only: gm)
  have "(2::real) ^ 1 \<le> 2 ^ m" using mpos by (intro power_increasing) simp_all
  then have "1 / 2 ^ m \<le> 1 / (2::real)" by (intro divide_left_mono) simp_all
  then have g_half: "g \<le> 1 / 2" by (simp only: g_eq)
  have pj: "pow2 j = 2 ^ nat j" using j pow2_nat [of "nat j"] by simp
  have pj1: "pow2 (j + 1) = 2 ^ nat (j + 1)" using j pow2_nat [of "nat (j + 1)"] by simp
  have "pow2 (j - 52) = pow2 j * pow2 (- 52)" using pow2_add [of j "- 52"] by simp
  then have gj: "g = pow2 j / 2 ^ 52" by (simp add: g_def pow2_def)
  have kj1: "(2::real) ^ nat j + 1 \<le> of_int k"
  proof -
    have "2 ^ nat j + 1 \<le> k" using kj(1) by simp
    then have "(of_int (2 ^ nat j + 1) :: real) \<le> of_int k" by (simp only: of_int_le_iff)
    then show ?thesis by simp
  qed
  have kj2: "(of_int k :: real) + 1 \<le> 2 ^ nat (j + 1)"
  proof -
    have "(of_int (k + 1) :: real) \<le> of_int (2 ^ nat (j + 1))"
      using kj(2) by (simp only: of_int_le_iff)
    then show ?thesis by simp
  qed
  have "(0::real) \<le> 2 ^ nat j" by simp
  with kj1 have kpos: "(0::real) < of_int k" by linarith
  have x0: "0 \<le> x" unfolding x_def using r(1) kpos by simp
  have "Math_random env t * of_int k \<le> (1 - 1 / 2 ^ 53) * of_int k"
    using r(2) kpos by (intro mult_right_mono) simp_all
  moreover have "(1 - 1 / 2 ^ 53) * (of_int k :: real) = of_int k - of_int k / 2 ^ 53"
    by (simp only: left_diff_distrib mult_1 times_divide_eq_left)
  ultimately have xk: "x \<le> of_int k - of_int k / 2 ^ 53"
    by (simp only: x_def)
  have kfrac: "(0::real) \<le> of_int k / 2 ^ 53" using kpos by simp
  have "(2::real) ^ nat j < of_int k" using kj1 by linarith
  then have "pow2 j / 2 ^ 53 < of_int k / 2 ^ 53"
    unfolding pj by (rule divide_strict_right_mono) simp
  moreover have "pow2 j / 2 ^ 53 = g / 2" by (simp add: gj)
  ultimately have x_near: "x < of_int k - g / 2" using xk by linarith
  have low_k: "pow2 j \<le> of_int k - g" unfolding pj using kj1 g_half by linarith
  have grid: "of_int (c * 2 ^ m - 1) * g = of_int c - g" for c :: int
  proof -
    have "of_int (c * 2 ^ m - 1) * g = of_int c * (g * 2 ^ m) - g"
      by (simp add: algebra_simps)
    then show ?thesis by (simp add: gm)
  qed
  have grid_half: "(of_int (c * 2 ^ m - 1) + 1 / 2) * g = of_int c - g / 2" for c :: int
  proof -
    have "(of_int (c * 2 ^ m - 1) + 1 / 2) * g = of_int (c * 2 ^ m - 1) * g + g / 2"
      by (simp only: distrib_right times_divide_eq_left mult_1)
    then show ?thesis unfolding grid by linarith
  qed
  have p0: "0 \<le> p" unfolding p_def using x0 by (rule round_double_nonneg)
  have pk: "p \<le> of_int k - g"
  proof (cases "x = 0")
    case True
    then have "p = 0" by (simp add: p_def round_double_def)
    then show ?thesis using low_k pow2_pos [of j] by linarith
  next
    case False
    with x0 have xpos: "0 < x" by simp
    have "round_double x \<le> of_int (k * 2 ^ m - 1) * pow2 (j - 52)"
    proof (rule round_double_le_grid [OF xpos])
      show "x < pow2 (j + 1)" unfolding pj1 using xk kj2 kfrac by linarith
      show "- 1074 \<le> j - 52" using j by simp
      show "x < (of_int (k * 2 ^ m - 1) + 1 / 2) * pow2 (j - 52)"
        unfolding g_def [symmetric] grid_half by (rule x_near)
      show "pow2 j \<le> of_int (k * 2 ^ m - 1) * pow2 (j - 52)"
        unfolding g_def [symmetric] grid by (rule low_k)
    qed
    then show ?thesis unfolding g_def [symmetric] grid p_def .
  qed
  have spos: "0 < s" unfolding s_def using p0 by simp
  have sk: "s \<le> of_int (k + 1) - g" unfolding s_def using pk by simp
  have "round_double s \<le> of_int ((k + 1) * 2 ^ m - 1) * pow2 (j - 52)"
  proof (rule round_double_le_grid [OF spos])
    have "(of_int (k + 1) :: real) = of_int k + 1" by simp
    then show "s < pow2 (j + 1)" unfolding pj1 using sk kj2 gpos by linarith
    show "- 1074 \<le> j - 52" using j by simp
    show "s < (of_int ((k + 1) * 2 ^ m - 1) + 1 / 2) * pow2 (j - 52)"
      unfolding g_def [symmetric] grid_half using sk gpos by linarith
    have "(of_int (k + 1) :: real) = of_int k + 1" by simp
    then show "pow2 j \<le> of_int ((k + 1) * 2 ^ m - 1) * pow2 (j - 52)"
      unfolding g_def [symmetric] grid using low_k by linarith
  qed
  then have "round_double s \<le> of_int (k + 1) - g"
    unfolding g_def [symmetric] grid .
  then have "round_double s < of_int (k + 1)" using gpos by linarith
  then have "\<lfloor>round_double s\<rfloor> < k + 1" by (simp only: floor_less_iff)
  moreover have "fst (getRandomInt env 1 (of_int (k + 1)) t) = \<lfloor>round_double s\<rfloor>"
    by (simp add: getRandomInt_def double_add_def double_mul_def s_def p_def x_def)
  ultimately show ?thesis by simp
qed


subsection \<open>Decimal digits\<close>

lemma digit_chars: "map digit_char [0..<10] = ''0123456789''"
  by code_simp

lemma digit_char_decimal: "d < 10 \<Longrightarrow> digit_char d = decimal_digit d"
proof -
  assume d: "d < 10"
  then have "digit_char d = map digit_char [0..<10] ! d" by simp
  then show ?thesis by (simp only: digit_chars decimal_digit_def)
qed

lemma nat_toString_1: "n < 10 \<Longrightarrow> nat_toString n = [digit_char n]"
  by (simp add: nat_toString.simps)

lemma nat_toString_step:
  "10 \<le> n \<Longrightarrow> nat_toString n = nat_toString (n div 10) @ [digit_char (n mod 10)]"
  by (subst nat_toString.simps) simp

lemma nat_toString_2:
  assumes "10 \<le> n" "n < 100"
  shows "nat_toString n = [digit_char (n div 10), digit_char (n mod 10)]"
proof -
  have "n div 10 < 10" using assms by simp
  then show ?thesis using assms by (simp add: nat_toString_step nat_toString_1)
qed

lemma nat_toString_3:
  assumes "100 \<le> n" "n < 1000"
  shows "nat_toString n
         = [digit_char (n div 100), digit_char (n div 10 mod 10), digit_char (n mod 10)]"
proof -
  have a: "10 \<le> n div 10" "n div 10 < 100" "10 \<le> n" using assms by simp_all
  have b: "n div 10 div 10 = n div 100" by (simp add: div_mult2_eq [symmetric])
  show ?thesis
    unfolding nat_toString_step [OF a(3)] nat_toString_2 [OF a(1,2)] b by simp
qed

lemma nat_toString_4:
  assumes "1000 \<le> n" "n < 10000"
  shows "nat_toString n = [digit_char (n div 1000), digit_char (n div 100 mod 10),
                           digit_char (n div 10 mod 10), digit_char (n mod 10)]"
proof -
  have a: "100 \<le> n div 10" "n div 10 < 1000" "10 \<le> n" using assms by simp_all
  have b: "n div 10 div 100 = n div 1000" "n div 10 div 10 = n div 100"
    by (simp_all add: div_mult2_eq [symmetric])
  show ?thesis
    unfolding nat_toString_step [OF a(3)] nat_toString_3 [OF a(1,2)] b by simp
qed

lemma decimal_fixed_2:
  "decimal_fixed 2 n = [decimal_digit (n div 10 mod 10), decimal_digit (n mod 10)]"
  by (simp add: decimal_fixed_def upt_conv_Cons)

lemma decimal_fixed_4:
  "decimal_fixed 4 n = [decimal_digit (n div 1000 mod 10), decimal_digit (n div 100 mod 10),
                        decimal_digit (n div 10 mod 10), decimal_digit (n mod 10)]"
  by (simp add: decimal_fixed_def upt_conv_Cons)

lemma pad2_toString:
  assumes "1 \<le> i" "i < 100"
  shows "pad2 (toString i) = decimal_fixed 2 (nat i)"
proof (cases "i < 10")
  case True
  with assms have n: "nat i < 10" by simp
  have z: "CHR ''0'' = decimal_digit 0" by (simp add: decimal_digit_def)
  show ?thesis using assms n
    by (simp add: toString_def pad2_def nat_toString_1 decimal_fixed_2 digit_char_decimal z)
next
  case False
  with assms have n: "10 \<le> nat i" "nat i < 100" by simp_all
  then have "nat i div 10 < 10" by simp
  then show ?thesis using assms n
    by (simp add: toString_def pad2_def nat_toString_2 decimal_fixed_2 digit_char_decimal)
qed

lemma toString_year:
  assumes "1000 \<le> i" "i < 10000"
  shows "toString i = decimal_fixed 4 (nat i)"
proof -
  from assms have n: "1000 \<le> nat i" "nat i < 10000" by simp_all
  then have "nat i div 1000 < 10" by simp
  then show ?thesis using assms n
    by (simp add: toString_def nat_toString_4 decimal_fixed_4 digit_char_decimal)
qed

subsection \<open>Dates\<close>

text \<open>At the largest values \<open>Math.random\<close> can return, the year is 2020: the bound is reached.\<close>

lemma year_reaches_2020:
  "fst (getRandomInt (even_env\<lparr>Math_random := (\<lambda>t. 1 - 1 / 2 ^ 52)\<rparr>) 1500 2020 0) = 2020"
  by code_simp

text \<open>
  Claim C6. With \<open>Math.random\<close> a double in \<open>[0, 1)\<close>, the value generated for a \<open>date\<close>
  column is a string of twelve characters: an apostrophe, the four digits of a year between
  1500 and 2020, a slash, the two digits of a month between 1 and 12, a slash, the two digits
  of a day between 1 and 28, and an apostrophe; month and day have a leading zero below 10.
\<close>

theorem date_format:
  assumes unit: "random_in_unit env" and ty: "data_type columnObj = ''date''"
  shows "\<exists>y m d. 1500 \<le> y \<and> y \<le> 2020 \<and> 1 \<le> m \<and> m \<le> 12 \<and> 1 \<le> d \<and> d \<le> 28
      \<and> generateDataByType env columnObj t
          = (Inr (JsString (CHR 0x27 # decimal_fixed 4 y @ CHR ''/'' # decimal_fixed 2 m
                             @ CHR ''/'' # decimal_fixed 2 d @ [CHR 0x27])), t + 3)"
proof -
  define y where "y = fst (getRandomInt env 1500 2020 t)"
  define m where "m = fst (getRandomInt env 1 13 (t + 1))"
  define d where "d = fst (getRandomInt env 1 29 (t + 2))"
  have r: "\<And>k. 0 \<le> Math_random env k" "\<And>k. Math_random env k \<le> 1 - 1 / 2 ^ 53"
    using unit by (simp_all add: random_in_unit_def)
  have y: "1500 \<le> y" "y \<le> 2020"
    using getRandomInt_range [OF r, of 1500 2020 t] by (simp_all add: y_def)
  have m1: "1 \<le> m"
    using getRandomInt_range(1) [OF r, of 1 13 "t + 1"] by (simp add: m_def)
  have m2: "m \<le> 12"
    using getRandomInt_below [OF r, of 3 12 "t + 1"] by (simp add: m_def)
  have d1: "1 \<le> d"
    using getRandomInt_range(1) [OF r, of 1 29 "t + 2"] by (simp add: d_def)
  have d2: "d \<le> 28"
    using getRandomInt_below [OF r, of 4 28 "t + 2"] by (simp add: d_def)
  have gy: "getRandomInt env 1500 2020 t = (y, Suc t)"
    by (simp add: y_def getRandomInt_def)
  have gm: "getRandomInt env 1 13 (Suc t) = (m, Suc (Suc t))"
    by (simp add: m_def getRandomInt_def)
  have gd: "getRandomInt env 1 29 (Suc (Suc t)) = (d, Suc (Suc (Suc t)))"
    by (simp add: d_def getRandomInt_def)
  have sy: "toString y = decimal_fixed 4 (nat y)" using y by (intro toString_year) simp_all
  have sm: "pad2 (toString m) = decimal_fixed 2 (nat m)"
    using m1 m2 by (intro pad2_toString) simp_all
  have sd: "pad2 (toString d) = decimal_fixed 2 (nat d)"
    using d1 d2 by (intro pad2_toString) simp_all
  have "generateDataByType env columnObj t
          = (Inr (JsString (CHR 0x27 # decimal_fixed 4 (nat y) @ CHR ''/'' # decimal_fixed 2 (nat m)
                             @ CHR ''/'' # decimal_fixed 2 (nat d) @ [CHR 0x27])), t + 3)"
    unfolding generateDataByType_def using ty by (simp add: gy gm gd sy sm sd quoted_def)
  moreover have "1500 \<le> nat y \<and> nat y \<le> 2020 \<and> 1 \<le> nat m \<and> nat m \<le> 12
                 \<and> 1 \<le> nat d \<and> nat d \<le> 28"
    using y m1 m2 d1 d2 by linarith
  ultimately show ?thesis by blast
qed

lemma even_env_date:
  "generateDataByType even_env date_column 0
   = (Inr (JsString [CHR 0x27, CHR ''1'', CHR ''7'', CHR ''6'', CHR ''0'', CHR ''/'',
                     CHR ''0'', CHR ''7'', CHR ''/'', CHR ''1'', CHR ''5'', CHR 0x27]), 3)"
  by code_simp

theorem date_format_witness:
  "random_in_unit even_env \<and> data_type date_column = ''date''
   \<and> generateDataByType even_env date_column 0
       = (Inr (JsString [CHR 0x27, CHR ''1'', CHR ''7'', CHR ''6'', CHR ''0'', CHR ''/'',
                         CHR ''0'', CHR ''7'', CHR ''/'', CHR ''1'', CHR ''5'', CHR 0x27]), 3)
   \<and> (\<exists>y m d. 1500 \<le> y \<and> y \<le> 2020 \<and> 1 \<le> m \<and> m \<le> 12 \<and> 1 \<le> d \<and> d \<le> 28
      \<and> [CHR 0x27, CHR ''1'', CHR ''7'', CHR ''6'', CHR ''0'', CHR ''/'',
          CHR ''0'', CHR ''7'', CHR ''/'', CHR ''1'', CHR ''5'', CHR 0x27]
         = CHR 0x27 # decimal_fixed 4 y @ CHR ''/'' # decimal_fixed 2 m
             @ CHR ''/'' # decimal_fixed 2 d @ [CHR 0x27])"
proof -
  have u: "random_in_unit even_env" by (simp add: random_in_unit_def even_env_def)
  have c: "data_type date_column = ''date''" by (simp add: date_column_def)
  from date_format [OF u c, of 0] even_env_date u c show ?thesis by simp
qed


subsection \<open>Strings of variable length\<close>

text \<open>The product of \<open>Math.random()\<close> and a \<open>maxLength\<close> of 1 or 2, rounded, stays below
  \<open>maxLength\<close>; with a negative \<open>maxLength\<close> it is not positive.\<close>

lemma random_times_one:
  assumes r: "0 \<le> r" "r \<le> 1 - 1 / 2 ^ 53"
  shows "round_double (r * 1) < 1"
proof (cases "r = 0")
  case True
  then show ?thesis by (simp add: round_double_def)
next
  case False
  with r(1) have pos: "0 < r" by simp
  have "round_double r \<le> of_int (2 ^ 53 - 1) * pow2 (- 1 - 52)"
  proof (rule round_double_le_grid [OF pos])
    show "r < pow2 (- 1 + 1)" using r(2) by (simp add: pow2_def)
    show "- 1074 \<le> (- 1 :: int) - 52" by simp
    show "r < (of_int (2 ^ 53 - 1) + 1 / 2) * pow2 (- 1 - 52)"
      using r(2) by (simp add: pow2_def)
    show "pow2 (- 1) \<le> of_int (2 ^ 53 - 1) * pow2 (- 1 - 52)"
      by (simp add: pow2_def)
  qed
  also have "\<dots> < 1" by (simp add: pow2_def)
  finally show ?thesis by simp
qed

lemma random_times_two:
  assumes r: "0 \<le> r" "r \<le> 1 - 1 / 2 ^ 53"
  shows "round_double (r * 2) < 2"
proof (cases "r = 0")
  case True
  then show ?thesis by (simp add: round_double_def)
next
  case False
  with r(1) have pos: "0 < r * 2" by simp
  have "round_double (r * 2) \<le> of_int (2 ^ 53 - 1) * pow2 (0 - 52)"
  proof (rule round_double_le_grid [OF pos])
    show "r * 2 < pow2 (0 + 1)" using r(2) by (simp add: pow2_def)
    show "- 1074 \<le> (0 :: int) - 52" by simp
    show "r * 2 < (of_int (2 ^ 53 - 1) + 1 / 2) * pow2 (0 - 52)"
      using r(2) by (simp add: pow2_def)
    show "pow2 0 \<le> of_int (2 ^ 53 - 1) * pow2 (0 - 52)"
      by (simp add: pow2_def)
  qed
  also have "\<dots> < 2" by (simp add: pow2_def)
  finally show ?thesis .
qed

lemma random_length_small:
  assumes r: "0 \<le> r" "r \<le> 1 - 1 / 2 ^ 53" and n: "0 < n" "n < 3"
  shows "0 \<le> \<lfloor>double_mul r (of_int n)\<rfloor>" and "\<lfloor>double_mul r (of_int n)\<rfloor> < n"
proof -
  have "0 \<le> r * of_int n" using r(1) n(1) by simp
  then have "0 \<le> round_double (r * of_int n)" by (rule round_double_nonneg)
  then show "0 \<le> \<lfloor>double_mul r (of_int n)\<rfloor>" by (simp add: double_mul_def)
  from n have "n = 1 \<or> n = 2" by auto
  then have "round_double (r * of_int n) < of_int n"
    using random_times_one [OF r] random_times_two [OF r] by auto
  then show "\<lfloor>double_mul r (of_int n)\<rfloor> < n"
    unfolding double_mul_def by (simp only: floor_less_iff)
qed

lemma random_length_negative:
  assumes r: "0 \<le> r" and n: "n < 0"
  shows "\<lfloor>double_mul r (of_int n)\<rfloor> \<le> 0"
proof -
  have "r * of_int n \<le> 0" using r n by (simp add: mult_nonneg_nonpos)
  then have "round_double (r * of_int n) \<le> 0" by (rule round_double_nonpos)
  then have "\<lfloor>round_double (r * of_int n)\<rfloor> \<le> \<lfloor>0::real\<rfloor>" by (rule floor_mono)
  then show ?thesis by (simp add: double_mul_def)
qed

lemma even_env_varchar:
  "fst (generateDataByType even_env (varchar_column (Some 2)) 0)
   = Inr (JsString [CHR 0x27, CHR ''a'', CHR 0x27])"
  by code_simp

text \<open>
  Claim C5, as stated: a \<open>character varying\<close> column with \<open>maxLength = 2\<close> always gets a
  string of length 2. With \<open>Math.random\<close> returning one half, the value is \<open>'a'\<close>: one
  character between the apostrophes.
\<close>

theorem varchar_length_counterexample:
  "random_in_unit even_env \<and> alphaNumeric_ok even_env
   \<and> data_type (varchar_column (Some 2)) = ''character varying''
   \<and> character_maximum_length (varchar_column (Some 2)) = Some 2
   \<and> fst (generateDataByType even_env (varchar_column (Some 2)) 0)
       = Inr (JsString [CHR 0x27, CHR ''a'', CHR 0x27])
   \<and> length [CHR ''a''] \<noteq> 2"
proof -
  have "random_in_unit even_env" by (simp add: random_in_unit_def even_env_def)
  moreover have "alphaNumeric_ok even_env"
    by (auto simp: alphaNumeric_ok_def alphaNumeric_chars_def even_env_def)
  ultimately show ?thesis using even_env_varchar by (simp add: varchar_column_def)
qed

text \<open>
  Claim C5, amended. For a \<open>character varying\<close> column the value is an apostrophe, an
  alphanumeric string and an apostrophe. When \<open>maxLength\<close> is defined, not 0 and less than 3,
  the length of the string is the integer part of \<open>r * maxLength\<close>, for the number \<open>r\<close> that
  \<open>Math.random\<close> returns, or 0 if that is negative: so it is less than \<open>maxLength\<close> when
  \<open>maxLength\<close> is 1 or 2 (0 or 1 for \<open>maxLength = 2\<close>), and 0 when \<open>maxLength\<close> is negative.
  Otherwise the length is 3; in particular it is 3 when \<open>maxLength\<close> is not defined.
\<close>

theorem varchar_length:
  assumes unit: "random_in_unit env" and an: "alphaNumeric_ok env"
    and ty: "data_type columnObj = ''character varying''"
  shows "\<exists>s. fst (generateDataByType env columnObj t) = Inr (JsString (CHR 0x27 # s @ [CHR 0x27]))
     \<and> set s \<subseteq> alphaNumeric_chars
     \<and> length s = (case character_maximum_length columnObj of
                     None \<Rightarrow> 3
                   | Some n \<Rightarrow> if n \<noteq> 0 \<and> n < 3
                              then nat \<lfloor>double_mul (Math_random env t) (of_int n)\<rfloor> else 3)
     \<and> (\<forall>n. character_maximum_length columnObj = Some n \<and> 0 < n \<and> n < 3
            \<longrightarrow> int (length s) < n)
     \<and> (\<forall>n. character_maximum_length columnObj = Some n \<and> n < 0 \<longrightarrow> length s = 0)
     \<and> (\<forall>n. character_maximum_length columnObj = Some n \<and> (n = 0 \<or> 3 \<le> n)
            \<longrightarrow> length s = 3)
     \<and> (character_maximum_length columnObj = Some 2 \<longrightarrow> length s = 0 \<or> length s = 1)
     \<and> (character_maximum_length columnObj = None \<longrightarrow> length s = 3)"
proof -
  define len :: int where "len = (case character_maximum_length columnObj of
                     None \<Rightarrow> 3
                   | Some n \<Rightarrow> if n \<noteq> 0 \<and> n < 3
                              then \<lfloor>double_mul (Math_random env t) (of_int n)\<rfloor> else 3)"
  define k where "k = (case character_maximum_length columnObj of
                     None \<Rightarrow> t
                   | Some n \<Rightarrow> if n \<noteq> 0 \<and> n < 3 then t + 1 else t)"
  define s where "s = faker_random_alphaNumeric env len k"
  have g: "fst (generateDataByType env columnObj t) = Inr (JsString (CHR 0x27 # s @ [CHR 0x27]))"
    using ty
    by (simp add: generateDataByType_def s_def len_def k_def Let_def quoted_def
        split: option.splits)
  have chars: "set s \<subseteq> alphaNumeric_chars" and l: "length s = nat len"
    using an by (simp_all add: alphaNumeric_ok_def s_def)
  have l1: "length s = (case character_maximum_length columnObj of
                     None \<Rightarrow> 3
                   | Some n \<Rightarrow> if n \<noteq> 0 \<and> n < 3
                              then nat \<lfloor>double_mul (Math_random env t) (of_int n)\<rfloor> else 3)"
    unfolding l len_def by (simp split: option.splits)
  have r: "0 \<le> Math_random env t" "Math_random env t \<le> 1 - 1 / 2 ^ 53"
    using unit by (simp_all add: random_in_unit_def)
  have l2: "\<forall>n. character_maximum_length columnObj = Some n \<and> 0 < n \<and> n < 3
            \<longrightarrow> int (length s) < n"
  proof (intro allI impI)
    fix n assume a: "character_maximum_length columnObj = Some n \<and> 0 < n \<and> n < 3"
    then have "length s = nat \<lfloor>double_mul (Math_random env t) (of_int n)\<rfloor>" using l1 by simp
    with random_length_small [OF r, of n] a show "int (length s) < n" by simp
  qed
  have l3: "\<forall>n. character_maximum_length columnObj = Some n \<and> n < 0 \<longrightarrow> length s = 0"
  proof (intro allI impI)
    fix n assume a: "character_maximum_length columnObj = Some n \<and> n < 0"
    then have "length s = nat \<lfloor>double_mul (Math_random env t) (of_int n)\<rfloor>" using l1 by simp
    with random_length_negative [OF r(1), of n] a show "length s = 0" by simp
  qed
  have l4: "\<forall>n. character_maximum_length columnObj = Some n \<and> (n = 0 \<or> 3 \<le> n)
            \<longrightarrow> length s = 3"
    using l1 by auto
  have l5: "character_maximum_length columnObj = Some 2 \<longrightarrow> length s = 0 \<or> length s = 1"
  proof
    assume "character_maximum_length columnObj = Some 2"
    with l2 have "int (length s) < 2" by simp
    then show "length s = 0 \<or> length s = 1" by linarith
  qed
  have l6: "character_maximum_length columnObj = None \<longrightarrow> length s = 3"
    using l1 by simp
  show ?thesis
    by (rule exI [of _ s]) (intro conjI g chars l1 l2 l3 l4 l5 l6)
qed

theorem varchar_length_witness:
  "random_in_unit even_env \<and> alphaNumeric_ok even_env
   \<and> data_type (varchar_column (Some 2)) = ''character varying''
   \<and> fst (generateDataByType even_env (varchar_column (Some 2)) 0)
       = Inr (JsString [CHR 0x27, CHR ''a'', CHR 0x27])
   \<and> (\<exists>s. [CHR 0x27, CHR ''a'', CHR 0x27] = CHR 0x27 # s @ [CHR 0x27]
          \<and> set s \<subseteq> alphaNumeric_chars \<and> (length s = 0 \<or> length s = 1))"
proof -
  have u: "random_in_unit even_env" by (simp add: random_in_unit_def even_env_def)
  have a: "alphaNumeric_ok even_env"
    by (auto simp: alphaNumeric_ok_def alphaNumeric_chars_def even_env_def)
  have c: "data_type (varchar_column (Some 2)) = ''character varying''"
    "character_maximum_length (varchar_column (Some 2)) = Some 2"
    by (simp_all add: varchar_column_def)
  from varchar_length [OF u a c(1), of 0] obtain s where
    "fst (generateDataByType even_env (varchar_column (Some 2)) 0)
       = Inr (JsString (CHR 0x27 # s @ [CHR 0x27]))"
    "set s \<subseteq> alphaNumeric_chars"
    "character_maximum_length (varchar_column (Some 2)) = Some 2
       \<longrightarrow> length s = 0 \<or> length s = 1"
    by blast
  with u a c even_env_varchar show ?thesis by auto
qed


section \<open>Properties of the generated table\<close>

lemma columnNames_foldl:
  "foldl (\<lambda>acc curr. if constraint_type curr \<noteq> ''PRIMARY KEY''
                        then acc @ [column_name curr] else acc) acc cs
   = acc @ map column_name (filter not_primary_key cs)"
  by (induction cs arbitrary: acc) (simp_all add: not_primary_key_def)

lemma columnNames_filter: "columnNames cs = map column_name (filter not_primary_key cs)"
  by (simp add: columnNames_def columnNames_foldl)

lemma columnsLoop_filter:
  "columnsLoop env (filter not_primary_key cs) row t = columnsLoop env cs row t"
proof (induction cs arbitrary: row t)
  case Nil
  show ?case by simp
next
  case (Cons c cs)
  show ?case
  proof (cases "constraint_type c = ''PRIMARY KEY''")
    case True
    then show ?thesis using Cons.IH by (simp add: not_primary_key_def)
  next
    case False
    then show ?thesis using Cons.IH
      by (simp add: not_primary_key_def Let_def split: prod.splits sum.splits)
  qed
qed

lemma columnsLoop_cells:
  "columnsLoop env cs row t = Inr (row', t') \<Longrightarrow>
   \<exists>vs. row' = row @ vs \<and> list_all2 (produced_for env) (filter not_primary_key cs) vs"
proof (induction cs arbitrary: row t)
  case Nil
  then show ?case by simp
next
  case (Cons c cs)
  consider (pk) "constraint_type c = ''PRIMARY KEY''"
    | (fk) "constraint_type c = ''FOREIGN KEY''"
    | (plain) "constraint_type c \<noteq> ''PRIMARY KEY''" "constraint_type c \<noteq> ''FOREIGN KEY''"
    by blast
  then show ?case
  proof cases
    case pk
    with Cons.prems have "columnsLoop env cs row t = Inr (row', t')" by simp
    moreover have "\<not> not_primary_key c" using pk by (simp add: not_primary_key_def)
    ultimately show ?thesis using Cons.IH by simp
  next
    case fk
    let ?q = "getForeignKeyQuery (foreign_column c) (foreign_table c)"
    from Cons.prems fk obtain rows where
      q: "query_rows env ?q t = Inr rows" "rows \<noteq> []"
      and rest: "columnsLoop env cs (row @ [get_prop (hd rows) ''_id'']) (t + 1) = Inr (row', t')"
      by (auto simp: Let_def split: sum.splits if_splits)
    from Cons.IH [OF rest] obtain vs where
      vs: "row' = (row @ [get_prop (hd rows) ''_id'']) @ vs"
        "list_all2 (produced_for env) (filter not_primary_key cs) vs"
      by blast
    have "produced_for env c (get_prop (hd rows) ''_id'')"
      using fk q by (auto simp: produced_for_def)
    moreover have "not_primary_key c" using fk by (simp add: not_primary_key_def)
    ultimately show ?thesis using vs
      by (intro exI [of _ "get_prop (hd rows) ''_id'' # vs"]) simp
  next
    case plain
    from Cons.prems plain obtain v t1 where
      g: "generateDataByType env c t = (Inr v, t1)"
      and rest: "columnsLoop env cs (row @ [v]) t1 = Inr (row', t')"
      by (auto split: prod.splits sum.splits)
    from Cons.IH [OF rest] obtain vs where
      vs: "row' = (row @ [v]) @ vs"
        "list_all2 (produced_for env) (filter not_primary_key cs) vs"
      by blast
    have "produced_for env c v"
      using plain g by (auto simp: produced_for_def intro: exI [of _ t])
    moreover have "not_primary_key c" using plain by (simp add: not_primary_key_def)
    ultimately show ?thesis using vs
      by (intro exI [of _ "v # vs"]) simp
  qed
qed

lemma columnsLoop_abrupt: "columnsLoop env cs row t \<noteq> Inl (Records x)"
  by (induction cs arbitrary: row t) (auto simp: Let_def split: prod.splits sum.splits)

lemma rowsLoop_filter:
  "rowsLoop env (filter not_primary_key tableInfo) numRows i recs t
   = rowsLoop env tableInfo numRows i recs t"
proof (induction env tableInfo numRows i recs t rule: rowsLoop.induct)
  case (1 env tableInfo numRows i dummyRecords t)
  show ?case
  proof (cases "i < numRows")
    case False
    then show ?thesis by (simp add: rowsLoop.simps)
  next
    case True
    show ?thesis
    proof (cases "columnsLoop env tableInfo [] t")
      case (Inl r)
      with True show ?thesis
        by (subst (1 2) rowsLoop.simps) (simp add: columnsLoop_filter)
    next
      case (Inr p)
      obtain row t1 where p: "p = (row, t1)" by (cases p)
      from "1.IH" [OF True Inr p [symmetric]] True Inr p show ?thesis
        by (subst (1 2) rowsLoop.simps) (simp add: columnsLoop_filter)
    qed
  qed
qed

lemma rowsLoop_shape:
  "rowsLoop env tableInfo numRows i recs t = Records (names, rows) \<Longrightarrow>
   names = fst recs \<and>
   (\<exists>new. rows = snd recs @ new \<and> length new = nat (numRows - i)
       \<and> (\<forall>row \<in> set new.
             list_all2 (produced_for env) (filter not_primary_key tableInfo) row))"
proof (induction env tableInfo numRows i recs t rule: rowsLoop.induct)
  case (1 env tableInfo numRows i dummyRecords t)
  show ?case
  proof (cases "i < numRows")
    case False
    with "1.prems" have "dummyRecords = (names, rows)" by (simp add: rowsLoop.simps)
    with False show ?thesis by auto
  next
    case True
    have unf: "rowsLoop env tableInfo numRows i dummyRecords t =
        (case columnsLoop env tableInfo [] t of
           Inl r \<Rightarrow> r
         | Inr (row, t') \<Rightarrow>
             rowsLoop env tableInfo numRows (i + 1)
               (fst dummyRecords, snd dummyRecords @ [row]) t')"
      using True by (subst rowsLoop.simps) simp
    from "1.prems" [unfolded unf] obtain row t1 where
      c: "columnsLoop env tableInfo [] t = Inr (row, t1)"
      and rest: "rowsLoop env tableInfo numRows (i + 1)
                   (fst dummyRecords, snd dummyRecords @ [row]) t1 = Records (names, rows)"
      using columnsLoop_abrupt [of env tableInfo "[]" t "(names, rows)"]
      by (auto split: sum.splits)
    from "1.IH" [OF True c refl rest] obtain new where
      n: "names = fst dummyRecords" "rows = (snd dummyRecords @ [row]) @ new"
        "length new = nat (numRows - (i + 1))"
        "\<forall>r \<in> set new. list_all2 (produced_for env) (filter not_primary_key tableInfo) r"
      by auto
    from columnsLoop_cells [OF c] have
      "list_all2 (produced_for env) (filter not_primary_key tableInfo) row" by simp
    with n True show ?thesis
      by (intro conjI exI [of _ "row # new"]) auto
  qed
qed

text \<open>
  Claim C4. When \<open>generateDummyData\<close> returns records, the column names are the names of the
  columns that are not primary keys, in the table's order; there is one row per requested
  row; every row has as many cells as there are column names, the cell at each position being
  a value produced for the column that is not a primary key at that position; and the records
  are those generated for the table without its primary-key columns.
\<close>

theorem generated_rows_shape:
  assumes "generateDummyData env tableInfo numRows t = Records (names, rows)"
  shows "names = map column_name (filter not_primary_key tableInfo)
    \<and> length rows = nat numRows
    \<and> (\<forall>row \<in> set rows. length row = length names
          \<and> list_all2 (produced_for env) (filter not_primary_key tableInfo) row)
    \<and> generateDummyData env (filter not_primary_key tableInfo) numRows t = Records (names, rows)"
proof -
  from rowsLoop_shape [OF assms [unfolded generateDummyData_def]]
  have n: "names = columnNames tableInfo" "length rows = nat numRows"
    and cells: "\<forall>row \<in> set rows.
                 list_all2 (produced_for env) (filter not_primary_key tableInfo) row"
    by auto
  have names: "names = map column_name (filter not_primary_key tableInfo)"
    using n(1) by (simp add: columnNames_filter)
  have len: "\<forall>row \<in> set rows. length row = length names"
  proof
    fix row assume "row \<in> set rows"
    with cells have "list_all2 (produced_for env) (filter not_primary_key tableInfo) row"
      by blast
    from list_all2_lengthD [OF this] names show "length row = length names" by simp
  qed
  have "columnNames (filter not_primary_key tableInfo) = columnNames tableInfo"
    by (simp add: columnNames_filter)
  then have "generateDummyData env (filter not_primary_key tableInfo) numRows t
        = generateDummyData env tableInfo numRows t"
    by (simp add: generateDummyData_def rowsLoop_filter)
  with assms names n(2) len cells show ?thesis by auto
qed

theorem generated_rows_shape_witness:
  "generateDummyData even_env users_table 2 0 = Records ([''name'', ''age''], users_rows)
   \<and> [''name'', ''age''] = map column_name (filter not_primary_key users_table)
   \<and> length users_rows = nat 2
   \<and> length (users_rows ! 0) = length [''name'', ''age'']
   \<and> list_all2 (produced_for even_env) (filter not_primary_key users_table) (users_rows ! 1)
   \<and> generateDummyData even_env (filter not_primary_key users_table) 2 0
        = Records ([''name'', ''age''], users_rows)"
proof -
  have g: "generateDummyData even_env users_table 2 0 = Records ([''name'', ''age''], users_rows)"
    by code_simp
  have m: "users_rows ! 0 \<in> set users_rows" "users_rows ! 1 \<in> set users_rows"
    by (simp_all add: users_rows_def)
  from generated_rows_shape [OF g] g m show ?thesis by blast
qed

subsection \<open>Foreign keys\<close>

text \<open>When the sample of the referenced table comes back empty, the function returns the
  error: no row is emitted.\<close>

lemma foreign_key_no_candidate:
  assumes "constraint_type c = ''FOREIGN KEY''"
    and "query_rows env (getForeignKeyQuery (foreign_column c) (foreign_table c)) t = Inr []"
    and "0 < numRows"
  shows "generateDummyData env (c # cs) numRows t
         = ReturnedError (Error ''There was an error while retrieving a valid foreign key.'')"
  using assms by (simp add: generateDummyData_def rowsLoop.simps [of _ _ _ 0])

text \<open>
  Claim C3. A foreign-key cell is the sampled row's value of \<open>foreignColumn\<close>, never a
  missing value. The generator selects \<open>foreignColumn\<close> but reads the property \<open>_id\<close> of the
  row it gets: for a column referencing \<open>authors.id\<close>, the sampled row \<open>{id: 7}\<close> has the
  value 7 under \<open>id\<close>, and the generated cell is \<open>undefined\<close>.
\<close>

theorem foreign_key_reads_fixed_property:
  "query_rows authors_env (getForeignKeyQuery ''id'' ''authors'') 0 = Inr [[(''id'', JsNumber 7)]]
   \<and> get_prop [(''id'', JsNumber 7)] ''id'' = JsNumber 7
   \<and> generateDummyData authors_env books_table 1 0 = Records ([''author_id''], [[JsUndefined]])"
  by (simp add: authors_env_def even_env_def books_table_def generateDummyData_def
      columnNames_def rowsLoop.simps get_prop_def getForeignKeyQuery_def)

section \<open>Properties of the pretty time\<close>

lemma pow10_pos: "0 < pow10 k"
  by (simp add: pow10_def)

lemma pow10_nat: "pow10 (int n) = 10 ^ n"
  by (simp add: pow10_def)

lemma pow10_neg_nat: "pow10 (- int n) = 1 / 10 ^ n"
proof (cases "n = 0")
  case True
  then show ?thesis by (simp add: pow10_def)
next
  case False
  then have "\<not> 0 \<le> - int n" by simp
  then show ?thesis by (simp add: pow10_def)
qed

lemma pow10_Suc: "pow10 (k + 1) = 10 * pow10 k"
proof (cases "0 \<le> k")
  case True
  then have "nat (k + 1) = Suc (nat k)" by simp
  with True show ?thesis by (simp add: pow10_def)
next
  case False
  then have "nat (- k) = Suc (nat (- (k + 1)))" by simp
  with False show ?thesis by (cases "k + 1 = 0") (simp_all add: pow10_def)
qed

lemma digits_bounds:
  "0 < n \<Longrightarrow> 10 ^ (length (nat_toString n) - 1) \<le> n \<and> n < 10 ^ length (nat_toString n)"
proof (induction n rule: nat_toString.induct)
  case (1 n)
  show ?case
  proof (cases "n < 10")
    case True
    with "1.prems" show ?thesis by (simp add: nat_toString_1)
  next
    case False
    then have pos: "0 < n div 10" by simp
    from "1.IH" [OF False pos] have
      lo: "10 ^ (length (nat_toString (n div 10)) - 1) \<le> n div 10"
      and hi: "n div 10 < 10 ^ length (nat_toString (n div 10))"
      by simp_all
    have len: "length (nat_toString n) = Suc (length (nat_toString (n div 10)))"
      using False by (simp add: nat_toString_step)
    have lpos: "0 < length (nat_toString (n div 10))"
      by (subst nat_toString.simps) simp
    have "10 * 10 ^ (length (nat_toString (n div 10)) - 1) \<le> 10 * (n div 10)"
      using lo by simp
    also have "\<dots> \<le> n" by simp
    finally have a: "10 ^ (length (nat_toString n) - 1) \<le> n"
      using len lpos by (simp add: power_Suc [symmetric] del: power_Suc)
    have "n < 10 * (n div 10 + 1)" by presburger
    also have "\<dots> \<le> 10 * 10 ^ length (nat_toString (n div 10))"
      using hi by simp
    finally have b: "n < 10 ^ length (nat_toString n)"
      using len by simp
    from a b show ?thesis by simp
  qed
qed

lemma exponent10_bounds:
  assumes "0 < x"
  shows "pow10 (exponent10 x) \<le> x" and "x < pow10 (exponent10 x + 1)"
proof -
  have "pow10 (exponent10 x) \<le> x \<and> x < pow10 (exponent10 x + 1)"
  proof (cases "1 \<le> x")
    case True
    define n where "n = nat \<lfloor>x\<rfloor>"
    define l where "l = length (nat_toString n)"
    have fl: "1 \<le> \<lfloor>x\<rfloor>" using True by simp
    then have rn: "real n = of_int \<lfloor>x\<rfloor>" unfolding n_def by simp
    have n: "0 < n" "real n \<le> x" "x < real n + 1"
    proof -
      show "0 < n" unfolding n_def using fl by simp
      show "real n \<le> x" unfolding rn by (rule of_int_floor_le)
      show "x < real n + 1" unfolding rn using floor_correct [of x] by simp
    qed
    from digits_bounds [OF n(1)] have d: "10 ^ (l - 1) \<le> n" "n < 10 ^ l"
      by (simp_all add: l_def)
    have lpos: "0 < l" unfolding l_def by (subst nat_toString.simps) simp
    have e0: "exponent10 x = int l - 1"
      using True by (simp add: exponent10_def n_def l_def)
    have e: "exponent10 x = int (l - 1)"
      using e0 lpos by arith
    have e1: "exponent10 x + 1 = int l"
      using e0 by simp
    have r1: "(10::real) ^ (l - 1) \<le> real n"
      using of_nat_mono [OF d(1), where ?'a = real] by simp
    have lo: "pow10 (exponent10 x) \<le> x"
      unfolding e pow10_nat using r1 n(2) by linarith
    have "n + 1 \<le> 10 ^ l" using d(2) by simp
    from of_nat_mono [OF this, where ?'a = real] have r2: "real n + 1 \<le> (10::real) ^ l"
      by simp
    have hi: "x < pow10 (exponent10 x + 1)"
      unfolding e1 pow10_nat using r2 n(3) by linarith
    from lo hi show ?thesis ..
  next
    case False
    define y where "y = 1 / x"
    define m where "m = nat (\<lceil>y\<rceil> - 1)"
    define l where "l = length (nat_toString m)"
    have y: "1 < y" using False assms by (simp add: y_def)
    have c: "2 \<le> \<lceil>y\<rceil>" using y by linarith
    have rm: "real m = of_int \<lceil>y\<rceil> - 1" unfolding m_def using c by simp
    have m: "0 < m" "real m < y" "y \<le> real m + 1"
    proof -
      show "0 < m" unfolding m_def using c by simp
      show "real m < y" unfolding rm using ceiling_correct [of y] by simp
      show "y \<le> real m + 1" unfolding rm using ceiling_correct [of y] by simp
    qed
    from digits_bounds [OF m(1)] have d: "10 ^ (l - 1) \<le> m" "m < 10 ^ l"
      by (simp_all add: l_def)
    have lpos: "0 < l" unfolding l_def by (subst nat_toString.simps) simp
    have e: "exponent10 x = - int l"
      using False by (simp add: exponent10_def m_def l_def y_def)
    have e1: "exponent10 x + 1 = - int (l - 1)"
      using e lpos by arith
    have xy: "x = 1 / y" using assms by (simp add: y_def)
    have "m + 1 \<le> 10 ^ l" using d(2) by simp
    from of_nat_mono [OF this, where ?'a = real] have r2: "real m + 1 \<le> (10::real) ^ l"
      by simp
    have "y \<le> 10 ^ l" using r2 m(3) by linarith
    then have "1 / 10 ^ l \<le> 1 / y" using y by (intro divide_left_mono) simp_all
    moreover have "pow10 (exponent10 x) = 1 / 10 ^ l"
      unfolding e by (rule pow10_neg_nat)
    ultimately have lo: "pow10 (exponent10 x) \<le> x"
      using xy by linarith
    have r1: "(10::real) ^ (l - 1) \<le> real m"
      using of_nat_mono [OF d(1), where ?'a = real] by simp
    have "10 ^ (l - 1) < y" using r1 m(2) by linarith
    moreover have "0 < y" using y by simp
    ultimately have "1 / y < 1 / 10 ^ (l - 1)" by (intro divide_strict_left_mono) simp_all
    moreover have "pow10 (exponent10 x + 1) = 1 / 10 ^ (l - 1)"
      unfolding e1 by (rule pow10_neg_nat)
    ultimately have hi: "x < pow10 (exponent10 x + 1)"
      using xy by linarith
    from lo hi show ?thesis ..
  qed
  then show "pow10 (exponent10 x) \<le> x" and "x < pow10 (exponent10 x + 1)" by simp_all
qed

lemma half_floor:
  fixes y :: real
  shows "\<bar>of_int \<lfloor>y + 1 / 2\<rfloor> - y\<bar> \<le> 1 / 2"
  using floor_correct [of "y + 1 / 2"] by linarith

text \<open>The model of \<open>toPrecision\<close> rounds to \<open>p\<close> significant digits: the result has a mantissa
  of \<open>p\<close> digits (or is the next power of ten) and lies within half a unit of its last digit from
  the number.\<close>

lemma toPrecision_rounds:
  assumes "0 < x" and "0 < p"
  shows "10 ^ (p - 1) \<le> mantissa (toPrecision p x)"
    and "mantissa (toPrecision p x) \<le> 10 ^ p"
    and "\<bar>decimal_value (toPrecision p x) - x\<bar> \<le> pow10 (exponent (toPrecision p x)) / 2"
proof -
  define e where "e = exponent10 x"
  define u where "u = pow10 (e - int p + 1)"
  define y where "y = x / u"
  define n where "n = \<lfloor>y + 1 / 2\<rfloor>"
  have tp: "toPrecision p x = \<lparr>mantissa = n, exponent = e - int p + 1\<rparr>"
    using assms(1) by (simp add: toPrecision_def Let_def e_def u_def y_def n_def)
  have upos: "0 < u" unfolding u_def by (rule pow10_pos)
  have shift: "pow10 (k + int q) = 10 ^ q * pow10 k" for k q
  proof (induction q)
    case 0
    show ?case by simp
  next
    case (Suc q)
    have "k + int (Suc q) = (k + int q) + 1" by simp
    then show ?case using Suc by (simp only: pow10_Suc power_Suc mult.assoc)
  qed
  have "pow10 e = 10 ^ (p - 1) * u"
    using shift [of "e - int p + 1" "p - 1"] assms(2) by (simp add: u_def of_nat_diff)
  moreover have "pow10 (e + 1) = 10 ^ p * u"
    using shift [of "e - int p + 1" p] by (simp add: u_def)
  ultimately have "10 ^ (p - 1) * u \<le> x" "x < 10 ^ p * u"
    using exponent10_bounds [OF assms(1)] by (simp_all add: e_def)
  then have y: "10 ^ (p - 1) \<le> y" "y < 10 ^ p"
    using upos by (simp_all add: y_def pos_le_divide_eq pos_divide_less_eq)
  have "of_int (10 ^ (p - 1)) \<le> y + 1 / 2" using y(1) by simp
  then have lo: "10 ^ (p - 1) \<le> n" unfolding n_def by (simp only: le_floor_iff)
  have "y + 1 / 2 < of_int (10 ^ p + 1)" using y(2) by simp
  then have "n < 10 ^ p + 1" unfolding n_def by (simp only: floor_less_iff)
  then have hi: "n \<le> 10 ^ p" by simp
  have "\<bar>of_int n - y\<bar> \<le> 1 / 2" unfolding n_def by (rule half_floor)
  then have "\<bar>of_int n - y\<bar> * u \<le> 1 / 2 * u"
    using upos by (intro mult_right_mono) simp_all
  moreover have "\<bar>of_int n - y\<bar> * u = \<bar>of_int n * u - x\<bar>"
  proof -
    have "(of_int n - y) * u = of_int n * u - x"
      using upos by (simp add: y_def left_diff_distrib)
    then have "\<bar>of_int n * u - x\<bar> = \<bar>(of_int n - y) * u\<bar>" by simp
    also have "\<dots> = \<bar>of_int n - y\<bar> * \<bar>u\<bar>" by (rule abs_mult)
    finally show ?thesis using upos by simp
  qed
  ultimately have close: "\<bar>of_int n * u - x\<bar> \<le> u / 2" by simp
  show "10 ^ (p - 1) \<le> mantissa (toPrecision p x)" using lo by (simp add: tp)
  show "mantissa (toPrecision p x) \<le> 10 ^ p" using hi by (simp add: tp)
  show "\<bar>decimal_value (toPrecision p x) - x\<bar> \<le> pow10 (exponent (toPrecision p x)) / 2"
    using close by (simp add: tp decimal_value_def u_def)
qed




end
